theory Spec2Isabelle
  imports Main "HOL-Library.List_Lexorder" "HOL-Library.Char_ord" "HOL-Library.AList"
begin

section \<open>Locations: the URL arithmetic of node-modules.js\<close>

text \<open>
  Every location handled by \<^verbatim>\<open>node-modules.js\<close> is a hierarchical URL such as
  \<^verbatim>\<open>file:///app/node_modules/foo/\<close>.  A location is modelled by the list of the
  segments of its path, as the URL standard keeps it: \<^verbatim>\<open>/app/node_modules/foo/\<close> is
  \<open>[''app'', ''node_modules'', ''foo'', '''']\<close>, a directory URL ends with the empty
  segment, and the root \<^verbatim>\<open>/\<close> is \<open>['''']\<close>.  The string form of a location
  (\<open>href\<close>) is what the source uses as a key of the graph.

  \<^verbatim>\<open>new URL(rel, abs)\<close> is modelled for relative references made of path segments
  only (no scheme, query, fragment, backslash or character that needs escaping, and
  not starting with a slash), which covers \<^verbatim>\<open>'../'\<close>, \<^verbatim>\<open>'package.json'\<close> and
  \<^verbatim>\<open>`node_modules/${name}/`\<close> for package names.  The special treatment of Windows
  drive letters in file URLs is not modelled.
\<close>

type_synonym location = "string list"

definition pathname :: "location \<Rightarrow> string" where
  "pathname loc = concat (map (\<lambda>s. CHR ''/'' # s) loc)"

definition href :: "location \<Rightarrow> string" where
  "href loc = ''file://'' @ pathname loc"

fun split_slash :: "string \<Rightarrow> string list" where
  "split_slash [] = [[]]"
| "split_slash (c # cs) =
     (if c = CHR ''/'' then [] # split_slash cs
      else (case split_slash cs of [] \<Rightarrow> [[c]] | s # ss \<Rightarrow> (c # s) # ss))"

text \<open>The URL standard's "shorten a path": drop the last segment, if there is one.\<close>

definition url_shorten :: "string list \<Rightarrow> string list" where
  "url_shorten p = butlast p"

text \<open>
  The URL standard's path state, run over the segments of the relative reference: a
  \<^verbatim>\<open>..\<close> segment shortens the path, a \<^verbatim>\<open>.\<close> segment is dropped, any other
  segment is appended; after a final \<^verbatim>\<open>..\<close> or \<^verbatim>\<open>.\<close> the empty segment is
  appended.
\<close>

fun url_path_state :: "string list \<Rightarrow> string list \<Rightarrow> string list" where
  "url_path_state p [] = p"
| "url_path_state p [b] =
     (if b = ''..'' then url_shorten p @ ['''']
      else if b = ''.'' then p @ ['''']
      else p @ [b])"
| "url_path_state p (b # bs) =
     url_path_state
       (if b = ''..'' then url_shorten p else if b = ''.'' then p else p @ [b]) bs"

text \<open>\<^verbatim>\<open>const resolveLocation = (rel, abs) => new URL(rel, abs).toString()\<close>\<close>

definition resolveLocation :: "string \<Rightarrow> location \<Rightarrow> location" where
  "resolveLocation rel base = url_path_state (url_shorten base) (split_slash rel)"

text \<open>\<^verbatim>\<open>String.prototype.lastIndexOf\<close> for a one-character pattern; \<open>-1\<close> when absent.\<close>

fun lastIndexOf :: "string \<Rightarrow> char \<Rightarrow> int" where
  "lastIndexOf [] c = - 1"
| "lastIndexOf (x # xs) c =
     (let i = lastIndexOf xs c
      in if 0 \<le> i then i + 1 else if x = c then 0 else - 1)"

text \<open>
  \<^verbatim>\<open>
  const basename = location => {
    const { pathname } = new URL(location);
    const index = pathname.lastIndexOf('/');
    if (index < 0) { return pathname; }
    return pathname.slice(index + 1);
  };\<close>
\<close>

definition basename :: "location \<Rightarrow> string" where
  "basename location =
     (let index = lastIndexOf (pathname location) (CHR ''/'')
      in if index < 0 then pathname location
         else drop (nat (index + 1)) (pathname location))"


section \<open>Errors and package descriptors\<close>

text \<open>
  One constructor for each \<^verbatim>\<open>throw\<close> and failed assertion of node-modules.js;
  \<open>CollaboratorError\<close> stands for an exception raised by a function the file
  imports (the JSON parser, the descriptor search, the policy validator).
\<close>

datatype error =
    CannotFindDependency string string
  | CannotFindCommonDependency string string
  | CannotFindCommonDependencySpec string string
  | CannotFindPackageJson string
  | CannotInterpretParserMap string
  | CannotInterpretParserLanguages "string list" string
  | CannotInferParserMap string string
  | FalsyPackagePolicy
  | ReservedCompartmentName string
  | TypeError string
  | CollaboratorError string

text \<open>
  A JavaScript object with string keys is an association list in insertion order:
  \<open>map_of\<close> reads a property, \<open>AList.update\<close> assigns one (in place when the key
  exists, at the end otherwise), \<open>map fst\<close> is \<^verbatim>\<open>Object.keys\<close>.
\<close>

type_synonym 'v object = "(string \<times> 'v) list"

text \<open>The \<^verbatim>\<open>parsers\<close> property of a package.json: absent, not an object, or an object.\<close>

datatype parsers_field =
    ParsersAbsent
  | ParsersNotObject
  | ParsersObject "string object"

text \<open>
  The properties of a parsed package.json that node-modules.js reads.  An entry of
  \<open>pkg_peerDependenciesMeta\<close> carries whether its value is an object with a truthy
  \<^verbatim>\<open>optional\<close>; \<open>pkg_exports\<close> is the \<^verbatim>\<open>exports\<close> property, kept opaque;
  \<open>pkg_module\<close> says whether \<^verbatim>\<open>module\<close> is defined.
\<close>

record descriptor =
  pkg_name :: string
  pkg_version :: string
  pkg_dependencies :: "string object"
  pkg_peerDependencies :: "string object"
  pkg_peerDependenciesMeta :: "bool object"
  pkg_bundleDependencies :: "string object"
  pkg_optionalDependencies :: "string object"
  pkg_devDependencies :: "string object"
  pkg_exports :: "string option"
  pkg_type :: "string option"
  pkg_module :: bool
  pkg_parsers :: parsers_field


section \<open>Package Finder\<close>

text \<open>
  \<^verbatim>\<open>findPackage(readDescriptor, canonical, directory, name)\<close>.  The two capabilities
  are functions of the location; the parameter \<^verbatim>\<open>readDescriptor\<close>, named
  \<open>readDescriptorFn\<close> here after its type, yields \<open>Inr None\<close> for
  \<^verbatim>\<open>undefined\<close> and \<open>Inl e\<close> when it throws.  The body of the \<^verbatim>\<open>for (;;)\<close> loop
  is the body of the function, and each \<^verbatim>\<open>directory = ...\<close> of the source is a
  \<open>let\<close> here.
\<close>

function findPackage ::
  "(location \<Rightarrow> error + descriptor option) \<Rightarrow> (location \<Rightarrow> location) \<Rightarrow>
   location \<Rightarrow> string \<Rightarrow> error + (location \<times> descriptor) option"
where
  "findPackage readDescriptorFn canonical directory name =
     (let packageLocation =
            canonical (resolveLocation (''node_modules/'' @ name @ ''/'') directory)
      in case readDescriptorFn packageLocation of
           Inl e \<Rightarrow> Inl e
         | Inr (Some packageDescriptor) \<Rightarrow> Inr (Some (packageLocation, packageDescriptor))
         | Inr None \<Rightarrow>
             (let parent = resolveLocation ''../'' directory
              in if parent = directory then Inr None
                 else
                   (let directory1 = parent;
                        base = basename directory1
                    in if base = ''node_modules'' then
                         (let directory2 = resolveLocation ''../'' directory1
                          in if parent = directory2 then Inr None
                             else
                               (let directory3 = parent
                                in findPackage readDescriptorFn canonical directory3 name))
                       else findPackage readDescriptorFn canonical directory1 name)))"
  by pat_completeness auto

lemma resolveLocation_parent:
  "resolveLocation ''../'' directory = url_shorten (url_shorten directory) @ ['''']"
  by (simp add: resolveLocation_def)

lemma parent_measure:
  assumes "resolveLocation ''../'' directory \<noteq> directory"
  shows "(if resolveLocation ''../'' directory = [''''] then 0
          else max 1 (length (resolveLocation ''../'' directory)))
         < (if directory = [''''] then 0 else max (1::nat) (length directory))"
proof (cases "length directory \<le> 1")
  case True
  then have "url_shorten (url_shorten directory) = []"
    by (cases directory) (auto simp: url_shorten_def)
  then have "resolveLocation ''../'' directory = ['''']"
    by (simp add: resolveLocation_parent)
  with assms show ?thesis by auto
next
  case False
  then have len: "length (resolveLocation ''../'' directory) = length directory - 1"
    by (simp add: resolveLocation_parent url_shorten_def)
  from False have "directory \<noteq> ['''']" by auto
  with False len show ?thesis by auto
qed

termination findPackage
proof (relation "measure (\<lambda>(readDescriptorFn, canonical, directory, name).
                   if directory = [''''] then 0 else max 1 (length directory))")
  show "wf (measure (\<lambda>(readDescriptorFn, canonical, directory, name).
                   if directory = [''''] then 0 else max 1 (length directory)))"
    by simp
next
  fix readDescriptorFn :: "location \<Rightarrow> error + descriptor option"
    and canonical :: "location \<Rightarrow> location" and directory :: location
    and name :: string and parent directory1 base directory2 directory3
  assume "parent = resolveLocation ''../'' directory" "parent \<noteq> directory"
    "directory1 = parent" "directory3 = parent"
  then show "((readDescriptorFn, canonical, directory3, name),
              (readDescriptorFn, canonical, directory, name))
             \<in> measure (\<lambda>(readDescriptorFn, canonical, directory, name).
                   if directory = [''''] then 0 else max 1 (length directory))"
    using parent_measure [of directory] by simp
next
  fix readDescriptorFn :: "location \<Rightarrow> error + descriptor option"
    and canonical :: "location \<Rightarrow> location" and directory :: location
    and name :: string and parent directory1 base
  assume "parent = resolveLocation ''../'' directory" "parent \<noteq> directory"
    "directory1 = parent"
  then show "((readDescriptorFn, canonical, directory1, name),
              (readDescriptorFn, canonical, directory, name))
             \<in> measure (\<lambda>(readDescriptorFn, canonical, directory, name).
                   if directory = [''''] then 0 else max 1 (length directory))"
    using parent_measure [of directory] by simp
qed

declare findPackage.simps [simp del]


section \<open>JavaScript objects, sets and strings\<close>

definition object_keys :: "'v object \<Rightarrow> string list" where
  "object_keys obj = map fst obj"

definition object_values :: "'v object \<Rightarrow> 'v list" where
  "object_values obj = map snd obj"

text \<open>\<^verbatim>\<open>Object.assign(target, source)\<close>, and the spread \<^verbatim>\<open>{...a, ...b}\<close>.\<close>

definition assign :: "'v object \<Rightarrow> 'v object \<Rightarrow> 'v object" where
  "assign target source = fold (\<lambda>(k, v). AList.update k v) source target"

definition spread2 :: "'v object \<Rightarrow> 'v object \<Rightarrow> 'v object" where
  "spread2 a b = assign (assign [] a) b"

text \<open>
  \<^verbatim>\<open>for (const k of keys(obj).sort()) { const v = obj[k]; ... }\<close> visits the entries
  of \<open>obj\<close> by ascending key.  The default comparison of \<^verbatim>\<open>sort\<close> is the
  lexicographic order of the code units, here the order of \<open>char list\<close>.
\<close>

definition sorted_entries :: "'v object \<Rightarrow> (string \<times> 'v) list" where
  "sorted_entries obj = sort_key fst (AList.clearjunk obj)"

text \<open>
  A \<^verbatim>\<open>Set\<close> is the list of its elements in insertion order: \<open>set_add\<close> is
  \<^verbatim>\<open>add\<close>, \<open>new_Set\<close> is \<^verbatim>\<open>new Set(iterable)\<close>, and the list itself is what
  \<^verbatim>\<open>[...set]\<close> yields.
\<close>

definition set_add :: "'a list \<Rightarrow> 'a \<Rightarrow> 'a list" where
  "set_add s x = (if x \<in> set s then s else s @ [x])"

definition new_Set :: "'a list \<Rightarrow> 'a list" where
  "new_Set xs = fold (\<lambda>x s. set_add s x) xs []"

definition startsWith :: "string \<Rightarrow> string \<Rightarrow> bool" where
  "startsWith s p = (take (length p) s = p)"

text \<open>\<^verbatim>\<open>String.prototype.includes\<close>\<close>

fun string_includes :: "string \<Rightarrow> string \<Rightarrow> bool" where
  "string_includes [] p = (p = [])"
| "string_includes (c # cs) p = (startsWith (c # cs) p \<or> string_includes cs p)"

text \<open>\<^verbatim>\<open>x.startsWith('./') || x === '.'\<close>, written out three times in the source.\<close>

definition isRelative :: "string \<Rightarrow> bool" where
  "isRelative x = (startsWith x ''./'' \<or> x = ''.'')"

text \<open>A loop whose body may throw: the first error ends it.\<close>

fun foldE :: "('a \<Rightarrow> 's \<Rightarrow> error + 's) \<Rightarrow> 'a list \<Rightarrow> 's \<Rightarrow> error + 's" where
  "foldE f [] s = Inr s"
| "foldE f (x # xs) s = (case f x s of Inl e \<Rightarrow> Inl e | Inr s' \<Rightarrow> foldE f xs s')"


section \<open>Graph nodes, options and the imported functions\<close>

record node =
  node_label :: string
  node_name :: string
  node_path :: "string list"
  node_explicitExports :: bool
  node_internalAliases :: "string object"
  node_externalAliases :: "string object"
  node_dependencyLocations :: "string object"
  node_parsers :: "string object"
  node_types :: "string object"

type_synonym graph = "node object"

record languageOptions =
  lo_commonjsLanguageForExtension :: "string object"
  lo_moduleLanguageForExtension :: "string object"
  lo_workspaceCommonjsLanguageForExtension :: "string object"
  lo_workspaceModuleLanguageForExtension :: "string object"
  lo_languages :: "string list"

text \<open>
  The functions and the constant that node-modules.js imports from files that are
  not part of the sources at hand (json.js, infer-exports.js, search.js,
  compartment-map.js, node-module-specifier.js, policy-format.js, policy.js) are
  parameters of the model, gathered in one record.  \<open>'pol\<close> is the type of a
  policy, \<open>'pp\<close> of a package policy.  \<open>inferExportsAndAliases\<close> returns the three
  tables it fills (external aliases, internal aliases, types); \<open>assertPolicy\<close>
  returns the error it throws, if any; a naming kit is the triple
  \<open>(isEntry, name, path)\<close>, or the pair \<open>(name, path)\<close> for a dependency.
\<close>

record ('pol, 'pp) imported =
  parseLocatedJson :: "string \<Rightarrow> location \<Rightarrow> error + descriptor"
  inferExportsAndAliases ::
    "descriptor \<Rightarrow> string list \<Rightarrow> string object \<times> string object \<times> string object"
  searchDescriptor ::
    "location \<Rightarrow> (location \<Rightarrow> error + descriptor option) \<Rightarrow> error + descriptor option"
  pathCompare :: "string list \<Rightarrow> string list option \<Rightarrow> int"
  join :: "string \<Rightarrow> string \<Rightarrow> string"
  assertPolicy :: "'pol \<Rightarrow> error option"
  getPolicyForPackage :: "bool \<times> string \<times> string list \<Rightarrow> 'pol option \<Rightarrow> 'pp option"
  dependencyAllowedByPolicy :: "string \<times> string list \<Rightarrow> 'pp \<Rightarrow> bool"
  ATTENUATORS_COMPARTMENT :: string

record readPowers =
  rp_maybeRead :: "location \<Rightarrow> string option"
  rp_canonical :: "location \<Rightarrow> location"

record 'pol options =
  opt_dev :: bool
  opt_commonDependencies :: "string object"
  opt_policy :: "'pol option"
  opt_strict :: bool
  opt_languageForExtension :: "string object"
  opt_moduleLanguageForExtension :: "string object"
  opt_commonjsLanguageForExtension :: "string object"
  opt_workspaceLanguageForExtension :: "string object"
  opt_workspaceModuleLanguageForExtension :: "string object"
  opt_workspaceCommonjsLanguageForExtension :: "string object"
  opt_languages :: "string list"


section \<open>Manifest Reader\<close>

text \<open>
  \<^verbatim>\<open>
  const readDescriptor = async (maybeRead, packageLocation) => {
    const descriptorLocation = resolveLocation('package.json', packageLocation);
    const descriptorBytes = await maybeRead(descriptorLocation);
    if (descriptorBytes === undefined) { return undefined; }
    const descriptorText = decoder.decode(descriptorBytes);
    const descriptor = parseLocatedJson(descriptorText, descriptorLocation);
    return descriptor;
  };\<close>
  The bytes of a file are modelled by the text they decode to.
\<close>

definition readDescriptor ::
  "('pol, 'pp) imported \<Rightarrow> (location \<Rightarrow> string option) \<Rightarrow> location \<Rightarrow>
   error + descriptor option"
where
  "readDescriptor I maybeRead packageLocation =
     (let descriptorLocation = resolveLocation ''package.json'' packageLocation
      in case maybeRead descriptorLocation of
           None \<Rightarrow> Inr None
         | Some descriptorText \<Rightarrow>
             (case parseLocatedJson I descriptorText descriptorLocation of
                Inl e \<Rightarrow> Inl e
              | Inr descriptor \<Rightarrow> Inr (Some descriptor)))"

text \<open>
  \<^verbatim>\<open>readDescriptorWithMemo(memo, maybeRead, packageLocation)\<close> answers from the memo
  when it holds the location.  What the source adds to the memo on a miss is the
  result of \<open>readDescriptor\<close> at that location, which \<open>readDescriptor\<close> returns again;
  so the memo of the model keeps only what \<^verbatim>\<open>graphPackages\<close> puts there.
\<close>

definition readDescriptorWithMemo ::
  "('pol, 'pp) imported \<Rightarrow> (location \<rightharpoonup> error + descriptor option) \<Rightarrow>
   (location \<Rightarrow> string option) \<Rightarrow> location \<Rightarrow> error + descriptor option"
where
  "readDescriptorWithMemo I memo maybeRead packageLocation =
     (case memo packageLocation of
        Some promise \<Rightarrow> promise
      | None \<Rightarrow> readDescriptor I maybeRead packageLocation)"


section \<open>Language tables\<close>

definition defaultLanguageForExtension :: "string object" where
  "defaultLanguageForExtension =
     [(''mjs'', ''mjs''), (''cjs'', ''cjs''), (''json'', ''json''), (''text'', ''text''),
      (''bytes'', ''bytes'')]"

definition defaultCommonjsLanguageForExtension :: "string object" where
  "defaultCommonjsLanguageForExtension = [(''js'', ''cjs'')]"

definition defaultModuleLanguageForExtension :: "string object" where
  "defaultModuleLanguageForExtension = [(''js'', ''mjs'')]"

definition inferParsers ::
  "descriptor \<Rightarrow> location \<Rightarrow> languageOptions \<Rightarrow> error + string object"
where
  "inferParsers descriptor location languageOptions =
     (let workspace = \<not> string_includes (href location) ''/node_modules/'';
          moduleLanguageForExtension =
            (if workspace then lo_workspaceModuleLanguageForExtension languageOptions
             else lo_moduleLanguageForExtension languageOptions);
          commonjsLanguageForExtension =
            (if workspace then lo_workspaceCommonjsLanguageForExtension languageOptions
             else lo_commonjsLanguageForExtension languageOptions)
      in case pkg_parsers descriptor of
           ParsersNotObject \<Rightarrow> Inl (CannotInterpretParserMap (href location))
         | _ \<Rightarrow>
             (let packageLanguageForExtension =
                    (case pkg_parsers descriptor of ParsersObject obj \<Rightarrow> obj | _ \<Rightarrow> []);
                  invalidLanguages =
                    filter (\<lambda>language. language \<notin> set (lo_languages languageOptions))
                      (object_values packageLanguageForExtension)
              in if length invalidLanguages > 0 then
                   Inl (CannotInterpretParserLanguages invalidLanguages (href location))
                 else if pkg_type descriptor = Some ''module'' \<or> pkg_module descriptor then
                   Inr (spread2 moduleLanguageForExtension packageLanguageForExtension)
                 else if pkg_type descriptor = Some ''commonjs'' then
                   Inr (spread2 commonjsLanguageForExtension packageLanguageForExtension)
                 else
                   (case pkg_type descriptor of
                      Some type \<Rightarrow> Inl (CannotInferParserMap type (href location))
                    | None \<Rightarrow>
                        Inr (spread2 commonjsLanguageForExtension
                               packageLanguageForExtension))))"

definition makeLanguageOptions :: "'pol options \<Rightarrow> languageOptions" where
  "makeLanguageOptions options =
     (let commonjsLanguageForExtension =
            fold (\<lambda>src tgt. assign tgt src)
              [defaultLanguageForExtension, opt_languageForExtension options,
               defaultCommonjsLanguageForExtension,
               opt_commonjsLanguageForExtension options] [];
          moduleLanguageForExtension =
            fold (\<lambda>src tgt. assign tgt src)
              [defaultLanguageForExtension, opt_languageForExtension options,
               defaultModuleLanguageForExtension,
               opt_moduleLanguageForExtension options] [];
          workspaceCommonjsLanguageForExtension =
            fold (\<lambda>src tgt. assign tgt src)
              [defaultLanguageForExtension, opt_languageForExtension options,
               defaultCommonjsLanguageForExtension,
               opt_commonjsLanguageForExtension options,
               opt_workspaceLanguageForExtension options,
               opt_workspaceCommonjsLanguageForExtension options] [];
          workspaceModuleLanguageForExtension =
            fold (\<lambda>src tgt. assign tgt src)
              [defaultLanguageForExtension, opt_languageForExtension options,
               defaultModuleLanguageForExtension,
               opt_moduleLanguageForExtension options,
               opt_workspaceLanguageForExtension options,
               opt_workspaceModuleLanguageForExtension options] [];
          languages =
            new_Set
              (object_values moduleLanguageForExtension
               @ object_values commonjsLanguageForExtension
               @ object_values workspaceModuleLanguageForExtension
               @ object_values workspaceCommonjsLanguageForExtension
               @ opt_languages options)
      in \<lparr>lo_commonjsLanguageForExtension = commonjsLanguageForExtension,
          lo_moduleLanguageForExtension = moduleLanguageForExtension,
          lo_workspaceCommonjsLanguageForExtension = workspaceCommonjsLanguageForExtension,
          lo_workspaceModuleLanguageForExtension = workspaceModuleLanguageForExtension,
          lo_languages = languages\<rparr>)"


section \<open>Graph Builder\<close>

text \<open>
  What \<^verbatim>\<open>graphPackage\<close> and \<^verbatim>\<open>gatherDependency\<close> mutate: the graph, the map of
  preferred logical paths, and the console (the warnings logged so far, each the
  name looked for, the location and the name found).

  The two functions are asynchronous.  \<^verbatim>\<open>graphPackage\<close> starts one call of
  \<^verbatim>\<open>gatherDependency\<close> for each dependency (\<^verbatim>\<open>children.push(gatherDependency(...))\<close>)
  and awaits them together (\<^verbatim>\<open>await Promise.all(children)\<close>); each of them awaits
  \<^verbatim>\<open>findPackage\<close>, which reads from the disk, before it does anything else.  The
  state therefore also holds the promises that are not settled:

  \<^item> \<open>bs_children\<close>, the calls of \<^verbatim>\<open>gatherDependency\<close> whose search the host has
    not completed, in the order in which they were started, each with the
    arguments that differ from call to call;
  \<^item> \<open>bs_awaited\<close>, the calls of \<^verbatim>\<open>graphPackage\<close> that have registered their node
    and have not returned, in the order in which they registered, each with the
    location of its package and the location of the package whose child awaits it
    (\<open>None\<close> for the call that \<^verbatim>\<open>graphPackages\<close> awaits).

  The order in which the host completes the searches is not fixed by the program:
  it is a parameter of the model, the list \<open>completions\<close>, which gives for each
  completion the index of the search that completes, among those pending at that
  moment (modulo their number).  What a call does between two awaits runs without
  interruption, as in JavaScript.  A run in which a promise is never settled is the
  value \<open>None\<close>; a run that throws is \<open>Some (Inl e)\<close>, and it ends with the first
  error thrown.
\<close>

record child =
  child_packageLocation :: location
  child_name :: string
  child_logicalPath :: "string list"
  child_optional :: bool

record build_state =
  bs_graph :: graph
  bs_preferredPackageLogicalPathMap :: "(string list) object"
  bs_console :: "(string \<times> string \<times> string) list"
  bs_children :: "child list"
  bs_awaited :: "(location \<times> string option) list"

type_synonym 'a outcome = "(error + 'a) option"

text \<open>
  The type of \<^verbatim>\<open>graphPackage\<close>, with the arguments in the order of the source; the
  graph and the preferred-path map travel in the state, which comes last.
\<close>

type_synonym graphPackage_fn =
  "string \<Rightarrow> (location \<Rightarrow> error + descriptor option) \<Rightarrow> (location \<Rightarrow> location) \<Rightarrow>
   location \<times> descriptor \<Rightarrow> string list \<Rightarrow> bool \<Rightarrow> (string \<times> string) object \<Rightarrow>
   languageOptions \<Rightarrow> bool \<Rightarrow> string list \<Rightarrow> build_state \<Rightarrow> build_state outcome"

text \<open>
  \<^verbatim>\<open>gatherDependency\<close>, from the moment its search completes; its first argument
  is the \<^verbatim>\<open>graphPackage\<close> it calls (see \<open>graphPackage_begin\<close> below).  It returns
  the table \<^verbatim>\<open>dependencyLocations\<close> it was given, updated, with the state.
\<close>

definition gatherDependency ::
  "graphPackage_fn \<Rightarrow> ('pol, 'pp) imported \<Rightarrow>
   (location \<Rightarrow> error + descriptor option) \<Rightarrow> (location \<Rightarrow> location) \<Rightarrow>
   string object \<Rightarrow> location \<Rightarrow> string \<Rightarrow> string list \<Rightarrow> languageOptions \<Rightarrow> bool \<Rightarrow>
   string list \<Rightarrow> bool \<Rightarrow> (string \<times> string) object \<Rightarrow> build_state \<Rightarrow>
   (string object \<times> build_state) outcome"
where
  "gatherDependency graphPackageFn I readDescriptorFn canonical dependencyLocations
     packageLocation name conditions languageOptions strict childLogicalPath optional
     commonDependencyDescriptors st =
     (case findPackage readDescriptorFn canonical packageLocation name of
        Inl e \<Rightarrow> Some (Inl e)
      | Inr None \<Rightarrow>
          (if optional \<or> \<not> strict then Some (Inr (dependencyLocations, st))
           else Some (Inl (CannotFindDependency name (href packageLocation))))
      | Inr (Some dependency) \<Rightarrow>
          (let dependencyLocations1 =
                 AList.update name (href (fst dependency)) dependencyLocations;
               theCurrentBest =
                 map_of (bs_preferredPackageLogicalPathMap st) (href (fst dependency));
               st1 =
                 (if pathCompare I childLogicalPath theCurrentBest < 0 then
                    st\<lparr>bs_preferredPackageLogicalPathMap :=
                         AList.update (href (fst dependency)) childLogicalPath
                           (bs_preferredPackageLogicalPathMap st)\<rparr>
                  else st)
           in case graphPackageFn name readDescriptorFn canonical dependency conditions
                     False commonDependencyDescriptors languageOptions strict
                     childLogicalPath st1 of
                None \<Rightarrow> None
              | Some (Inl e) \<Rightarrow> Some (Inl e)
              | Some (Inr st2) \<Rightarrow> Some (Inr (dependencyLocations1, st2))))"

text \<open>
  The closure \<^verbatim>\<open>readDescriptorUpwards\<close> of \<^verbatim>\<open>graphPackage\<close>:
  \<^verbatim>\<open>const { data } = await searchDescriptor(location, readDescriptor); return data;\<close>
\<close>

definition readDescriptorUpwards ::
  "('pol, 'pp) imported \<Rightarrow> (location \<Rightarrow> error + descriptor option) \<Rightarrow> location \<Rightarrow>
   string \<Rightarrow> error + descriptor option"
where
  "readDescriptorUpwards I readDescriptorFn packageLocation path =
     (let location = resolveLocation path packageLocation
      in searchDescriptor I location readDescriptorFn)"

text \<open>
  The part of \<^verbatim>\<open>graphPackage\<close> that merges the dependency tables of the
  descriptor into \<^verbatim>\<open>allDependencies\<close> and collects \<^verbatim>\<open>optionals\<close>.
\<close>

definition allDependenciesOf ::
  "(string \<times> string) object \<Rightarrow> descriptor \<Rightarrow> bool \<Rightarrow> string object"
where
  "allDependenciesOf commonDependencyDescriptors packageDescriptor dev =
     (let allDependencies0 =
            fold (\<lambda>(name, (spec, alias)). AList.update name spec)
              commonDependencyDescriptors [];
          allDependencies1 = assign allDependencies0 (pkg_dependencies packageDescriptor);
          allDependencies2 = assign allDependencies1 (pkg_peerDependencies packageDescriptor);
          allDependencies3 = assign allDependencies2 (pkg_bundleDependencies packageDescriptor);
          allDependencies4 =
            assign allDependencies3 (pkg_optionalDependencies packageDescriptor)
      in if dev then assign allDependencies4 (pkg_devDependencies packageDescriptor)
         else allDependencies4)"

definition optionalsOf :: "descriptor \<Rightarrow> string list" where
  "optionalsOf packageDescriptor =
     (let optionals0 =
            fold (\<lambda>(name, optional) optionals.
                    if optional then set_add optionals name else optionals)
              (pkg_peerDependenciesMeta packageDescriptor) []
      in fold (\<lambda>name optionals. set_add optionals name)
           (object_keys (pkg_optionalDependencies packageDescriptor)) optionals0)"

text \<open>The two loops that end \<^verbatim>\<open>graphPackage\<close>, over the table of the package.\<close>

definition commonDependencyAliases ::
  "(string \<times> string) object \<Rightarrow> location \<Rightarrow> string object \<Rightarrow> error + string object"
where
  "commonDependencyAliases commonDependencyDescriptors packageLocation =
     foldE (\<lambda>(name, (spec, alias)) dependencyLocations.
              (case map_of dependencyLocations name of
                 None \<Rightarrow> Inl (CannotFindCommonDependency name (href packageLocation))
               | Some targetLocation \<Rightarrow>
                   Inr (AList.update alias targetLocation dependencyLocations)))
       commonDependencyDescriptors"

definition internalPackageAliases ::
  "string object \<Rightarrow> location \<Rightarrow> string object \<Rightarrow> error + string object"
where
  "internalPackageAliases internalAliases packageLocation =
     foldE (\<lambda>(specifier, target) dependencyLocations.
              if isRelative specifier then Inr dependencyLocations
              else if isRelative target then Inr dependencyLocations
              else
                (case map_of dependencyLocations target of
                   None \<Rightarrow> Inl (CannotFindDependency target (href packageLocation))
                 | Some targetLocation \<Rightarrow>
                     Inr (AList.update specifier targetLocation dependencyLocations)))
       (sorted_entries internalAliases)"

text \<open>
  The part of \<^verbatim>\<open>graphPackage\<close> that makes the node of the package: the aliases and
  types inferred from the descriptor, the parsers, the types of the modules that
  lie under a descriptor of type \<^verbatim>\<open>module\<close>, and the properties assigned to
  \<^verbatim>\<open>result\<close>.  The table of dependency locations is empty at this point.  The
  descriptors that \<^verbatim>\<open>readDescriptorUpwards\<close> reads are read here, where the source
  starts the reads; it awaits them before it awaits the children.
\<close>

definition packageNode ::
  "('pol, 'pp) imported \<Rightarrow> string \<Rightarrow> (location \<Rightarrow> error + descriptor option) \<Rightarrow> location \<Rightarrow>
   descriptor \<Rightarrow> string list \<Rightarrow> languageOptions \<Rightarrow> string list \<Rightarrow> error + node"
where
  "packageNode I name readDescriptorFn packageLocation packageDescriptor conditions
     languageOptions logicalPath =
     (let version = pkg_version packageDescriptor;
          (externalAliases, internalAliases, types0) =
            inferExportsAndAliases I packageDescriptor conditions
      in case inferParsers packageDescriptor packageLocation languageOptions of
           Inl e \<Rightarrow> Inl e
         | Inr parsers \<Rightarrow>
             (case foldE (\<lambda>item types.
                            (case readDescriptorUpwards I readDescriptorFn packageLocation
                                    item of
                               Inl e \<Rightarrow> Inl e
                             | Inr None \<Rightarrow> Inr types
                             | Inr (Some descriptor) \<Rightarrow>
                                 Inr (if pkg_type descriptor = Some ''module''
                                      then AList.update item ''mjs'' types
                                      else types)))
                     (object_values externalAliases) types0 of
                Inl e \<Rightarrow> Inl e
              | Inr types \<Rightarrow>
                  Inr \<lparr>node_label =
                         name @ (if version \<noteq> [] then ''-v'' @ version else []),
                       node_name = name,
                       node_path = logicalPath,
                       node_explicitExports = (pkg_exports packageDescriptor \<noteq> None),
                       node_internalAliases = internalAliases,
                       node_externalAliases = externalAliases,
                       node_dependencyLocations = [],
                       node_parsers = parsers,
                       node_types = types\<rparr>))"

text \<open>
  \<^verbatim>\<open>graphPackage\<close>, from the call to \<^verbatim>\<open>await Promise.all(children)\<close> (lines 318 to
  448).  A call for a location that is in the graph returns at once.  Otherwise the
  node is registered, and one search is started for each dependency name, in sorted
  order; none of them has completed when the call reaches its await.  The first
  argument, which the source does not have, records who awaits the promise the call
  returns: the child of the package at that location, or the caller of
  \<^verbatim>\<open>graphPackages\<close>.
\<close>

definition graphPackage_begin ::
  "string option \<Rightarrow> ('pol, 'pp) imported \<Rightarrow> graphPackage_fn"
where
  "graphPackage_begin awaiter I name readDescriptorFn canonical dependency conditions
     dev commonDependencyDescriptors languageOptions strict logicalPath st =
     (let packageLocation = fst dependency; packageDescriptor = snd dependency
      in if map_of (bs_graph st) (href packageLocation) \<noteq> None then Some (Inr st)
         else
           (let st1 =
                  (if pkg_name packageDescriptor \<noteq> name then
                     st\<lparr>bs_console :=
                          bs_console st
                          @ [(name, href packageLocation, pkg_name packageDescriptor)]\<rparr>
                   else st);
                allDependencies =
                  allDependenciesOf commonDependencyDescriptors packageDescriptor dev;
                optionals = optionalsOf packageDescriptor;
                children =
                  map (\<lambda>name.
                         \<lparr>child_packageLocation = packageLocation,
                          child_name = name,
                          child_logicalPath = logicalPath @ [name],
                          child_optional = (name \<in> set optionals)\<rparr>)
                    (sort (object_keys allDependencies))
            in case packageNode I name readDescriptorFn packageLocation packageDescriptor
                      conditions languageOptions logicalPath of
                 Inl e \<Rightarrow> Some (Inl e)
               | Inr result \<Rightarrow>
                   Some (Inr (st1\<lparr>bs_graph :=
                                    AList.update (href packageLocation) result
                                      (bs_graph st1),
                                  bs_children := bs_children st1 @ children,
                                  bs_awaited :=
                                    bs_awaited st1 @ [(packageLocation, awaiter)]\<rparr>))))"

text \<open>
  The host completes the search of one of the pending children, and that call of
  \<^verbatim>\<open>gatherDependency\<close> runs on to its await of \<^verbatim>\<open>graphPackage\<close>.  The table
  \<^verbatim>\<open>dependencyLocations\<close> it writes to is the one of the node of its package, as
  the source shares one object between the two.
\<close>

definition resumeChild ::
  "('pol, 'pp) imported \<Rightarrow> (location \<Rightarrow> error + descriptor option) \<Rightarrow>
   (location \<Rightarrow> location) \<Rightarrow> string list \<Rightarrow> (string \<times> string) object \<Rightarrow>
   languageOptions \<Rightarrow> bool \<Rightarrow> nat \<Rightarrow> build_state \<Rightarrow> build_state outcome"
where
  "resumeChild I readDescriptorFn canonical conditions commonDependencyDescriptors
     languageOptions strict completion st =
     (let index = completion mod length (bs_children st);
          child = bs_children st ! index;
          packageLocation = child_packageLocation child;
          dependencyLocations =
            (case map_of (bs_graph st) (href packageLocation) of
               None \<Rightarrow> []
             | Some result \<Rightarrow> node_dependencyLocations result);
          st1 = st\<lparr>bs_children :=
                     take index (bs_children st) @ drop (Suc index) (bs_children st)\<rparr>
      in case gatherDependency (graphPackage_begin (Some (href packageLocation)) I) I
                readDescriptorFn canonical dependencyLocations packageLocation
                (child_name child) conditions languageOptions strict
                (child_logicalPath child) (child_optional child)
                commonDependencyDescriptors st1 of
           None \<Rightarrow> None
         | Some (Inl e) \<Rightarrow> Some (Inl e)
         | Some (Inr (dependencyLocations1, st2)) \<Rightarrow>
             Some (Inr (st2\<lparr>bs_graph :=
                              AList.map_entry (href packageLocation)
                                (\<lambda>result. result\<lparr>node_dependencyLocations :=
                                                   dependencyLocations1\<rparr>)
                                (bs_graph st2)\<rparr>)))"

text \<open>
  \<^verbatim>\<open>Promise.all(children)\<close> of the call of \<^verbatim>\<open>graphPackage\<close> for a location has
  resolved: no search of a child of the package is pending, and no child awaits a
  call of \<^verbatim>\<open>graphPackage\<close> that has not returned.
\<close>

definition childrenSettled :: "location \<Rightarrow> build_state \<Rightarrow> bool" where
  "childrenSettled packageLocation st =
     (list_all (\<lambda>child. href (child_packageLocation child) \<noteq> href packageLocation)
        (bs_children st)
      \<and> list_all (\<lambda>(location, awaiter). awaiter \<noteq> Some (href packageLocation))
          (bs_awaited st))"

text \<open>
  \<^verbatim>\<open>graphPackage\<close>, after \<^verbatim>\<open>await Promise.all(children)\<close> (lines 450 to 478): the
  two closing loops, and the return, which settles the promise of the call.
\<close>

definition graphPackage_end ::
  "(string \<times> string) object \<Rightarrow> location \<Rightarrow> build_state \<Rightarrow> error + build_state"
where
  "graphPackage_end commonDependencyDescriptors packageLocation st =
     (let returned =
            st\<lparr>bs_awaited :=
                 filter (\<lambda>(location, awaiter). href location \<noteq> href packageLocation)
                   (bs_awaited st)\<rparr>
      in case map_of (bs_graph st) (href packageLocation) of
           None \<Rightarrow> Inr returned
         | Some result \<Rightarrow>
             (case commonDependencyAliases commonDependencyDescriptors packageLocation
                     (node_dependencyLocations result) of
                Inl e \<Rightarrow> Inl e
              | Inr dependencyLocations1 \<Rightarrow>
                  (case internalPackageAliases (node_internalAliases result)
                          packageLocation dependencyLocations1 of
                     Inl e \<Rightarrow> Inl e
                   | Inr dependencyLocations2 \<Rightarrow>
                       Inr (returned\<lparr>bs_graph :=
                                       AList.update (href packageLocation)
                                         (result\<lparr>node_dependencyLocations :=
                                                   dependencyLocations2\<rparr>)
                                         (bs_graph st)\<rparr>))))"

text \<open>
  Every call of \<^verbatim>\<open>graphPackage\<close> whose children have all returned runs to its end,
  which may let the call that awaits it run to its end in turn.
\<close>

function graphPackage_ends ::
  "(string \<times> string) object \<Rightarrow> build_state \<Rightarrow> error + build_state"
where
  "graphPackage_ends commonDependencyDescriptors st =
     (case find (\<lambda>(packageLocation, awaiter). childrenSettled packageLocation st)
             (bs_awaited st) of
        None \<Rightarrow> Inr st
      | Some (packageLocation, awaiter) \<Rightarrow>
          (case graphPackage_end commonDependencyDescriptors packageLocation st of
             Inl e \<Rightarrow> Inl e
           | Inr st1 \<Rightarrow> graphPackage_ends commonDependencyDescriptors st1))"
  by pat_completeness auto

lemma graphPackage_end_awaited:
  assumes "graphPackage_end commonDependencyDescriptors packageLocation st = Inr st1"
  shows "bs_awaited st1
         = filter (\<lambda>(location, awaiter). href location \<noteq> href packageLocation)
             (bs_awaited st)"
  using assms
  by (auto simp: graphPackage_end_def Let_def split: option.splits sum.splits)

termination graphPackage_ends
proof (relation "measure (\<lambda>(commonDependencyDescriptors, st). length (bs_awaited st))")
  show "wf (measure (\<lambda>(commonDependencyDescriptors, st). length (bs_awaited st)))"
    by simp
next
  fix commonDependencyDescriptors :: "(string \<times> string) object"
    and st :: build_state and found packageLocation awaiter st1
  assume found:
    "find (\<lambda>(packageLocation, awaiter). childrenSettled packageLocation st) (bs_awaited st)
     = Some found"
    and pair: "(packageLocation, awaiter) = found"
    and ended: "graphPackage_end commonDependencyDescriptors packageLocation st = Inr st1"
  from found pair have "(packageLocation, awaiter) \<in> set (bs_awaited st)"
    by (auto simp: find_Some_iff in_set_conv_nth)
  then have "length (filter (\<lambda>(location, awaiter). href location \<noteq> href packageLocation)
                       (bs_awaited st))
             < length (bs_awaited st)"
    by (intro length_filter_less [where x = "(packageLocation, awaiter)"]) auto
  with graphPackage_end_awaited [OF ended]
  show "((commonDependencyDescriptors, st1), (commonDependencyDescriptors, st))
        \<in> measure (\<lambda>(commonDependencyDescriptors, st). length (bs_awaited st))"
    by simp
qed

declare graphPackage_ends.simps [simp del]

text \<open>
  The wait for the promise of the first call of \<^verbatim>\<open>graphPackage\<close>: as long as a
  call has not returned, the host completes the next search, the child goes on, and
  the calls that can return do.  There is no result when the completions run out
  before the last call returns, or when a call has not returned and no search is
  pending.
\<close>

primrec awaitGraphPackage ::
  "nat list \<Rightarrow> ('pol, 'pp) imported \<Rightarrow> (location \<Rightarrow> error + descriptor option) \<Rightarrow>
   (location \<Rightarrow> location) \<Rightarrow> string list \<Rightarrow> (string \<times> string) object \<Rightarrow>
   languageOptions \<Rightarrow> bool \<Rightarrow> build_state \<Rightarrow> build_state outcome"
where
  "awaitGraphPackage [] I readDescriptorFn canonical conditions commonDependencyDescriptors
     languageOptions strict st =
     (if bs_awaited st = [] then Some (Inr st) else None)"
| "awaitGraphPackage (completion # completions) I readDescriptorFn canonical conditions
     commonDependencyDescriptors languageOptions strict st =
     (if bs_awaited st = [] then Some (Inr st)
      else if bs_children st = [] then None
      else
        (case resumeChild I readDescriptorFn canonical conditions
                commonDependencyDescriptors languageOptions strict completion st of
           None \<Rightarrow> None
         | Some (Inl e) \<Rightarrow> Some (Inl e)
         | Some (Inr st1) \<Rightarrow>
             (case graphPackage_ends commonDependencyDescriptors st1 of
                Inl e \<Rightarrow> Some (Inl e)
              | Inr st2 \<Rightarrow>
                  awaitGraphPackage completions I readDescriptorFn canonical conditions
                    commonDependencyDescriptors languageOptions strict st2)))"

text \<open>
  \<^verbatim>\<open>await graphPackage(...)\<close>: the call, and the wait for its promise, under the
  given order of completions.
\<close>

definition graphPackage :: "nat list \<Rightarrow> ('pol, 'pp) imported \<Rightarrow> graphPackage_fn" where
  "graphPackage completions I name readDescriptorFn canonical dependency conditions dev
     commonDependencyDescriptors languageOptions strict logicalPath st =
     (case graphPackage_begin None I name readDescriptorFn canonical dependency conditions
             dev commonDependencyDescriptors languageOptions strict logicalPath st of
        None \<Rightarrow> None
      | Some (Inl e) \<Rightarrow> Some (Inl e)
      | Some (Inr st1) \<Rightarrow>
          (case graphPackage_ends commonDependencyDescriptors st1 of
             Inl e \<Rightarrow> Some (Inl e)
           | Inr st2 \<Rightarrow>
               awaitGraphPackage completions I readDescriptorFn canonical conditions
                 commonDependencyDescriptors languageOptions strict st2))"

text \<open>
  \<^verbatim>\<open>graphPackages\<close>.  The memo holds the descriptor of the main package when the
  caller supplies it.
\<close>

definition graphPackages ::
  "nat list \<Rightarrow> ('pol, 'pp) imported \<Rightarrow> (location \<Rightarrow> string option) \<Rightarrow>
   (location \<Rightarrow> location) \<Rightarrow> location \<Rightarrow> string list \<Rightarrow> descriptor option \<Rightarrow> bool \<Rightarrow>
   string object \<Rightarrow> languageOptions \<Rightarrow> bool \<Rightarrow> graph outcome"
where
  "graphPackages completions I maybeRead canonical packageLocation conditions
     mainPackageDescriptor dev commonDependencies languageOptions strict =
     (let memo =
            (case mainPackageDescriptor of
               None \<Rightarrow> Map.empty
             | Some descriptor \<Rightarrow> [packageLocation \<mapsto> Inr (Some descriptor)]);
          readDescriptorFn = readDescriptorWithMemo I memo maybeRead
      in case readDescriptorFn packageLocation of
           Inl e \<Rightarrow> Some (Inl e)
         | Inr read \<Rightarrow>
             (let conditions1 =
                    set_add (set_add (set_add (new_Set conditions) ''import'') ''default'')
                      ''endo''
              in case read of
                   None \<Rightarrow> Some (Inl (CannotFindPackageJson (href packageLocation)))
                 | Some packageDescriptor \<Rightarrow>
                     (case foldE (\<lambda>(alias, dependencyName) commonDependencyDescriptors.
                                    (case map_of (pkg_dependencies packageDescriptor)
                                            dependencyName of
                                       None \<Rightarrow>
                                         Inl (CannotFindCommonDependencySpec dependencyName
                                                (href packageLocation))
                                     | Some spec \<Rightarrow>
                                         Inr (AList.update dependencyName (spec, alias)
                                                commonDependencyDescriptors)))
                             commonDependencies [] of
                        Inl e \<Rightarrow> Some (Inl e)
                      | Inr commonDependencyDescriptors \<Rightarrow>
                          (case graphPackage completions I (pkg_name packageDescriptor)
                                  readDescriptorFn canonical
                                  (packageLocation, packageDescriptor) conditions1 dev
                                  commonDependencyDescriptors languageOptions strict []
                                  \<lparr>bs_graph = [],
                                   bs_preferredPackageLogicalPathMap = [],
                                   bs_console = [], bs_children = [],
                                   bs_awaited = []\<rparr> of
                             None \<Rightarrow> None
                           | Some (Inl e) \<Rightarrow> Some (Inl e)
                           | Some (Inr st) \<Rightarrow> Some (Inr (bs_graph st))))))"

section \<open>Graph Translator\<close>

record module_descriptor =
  md_compartment :: string
  md_module :: string

text \<open>A scope descriptor \<^verbatim>\<open>{ compartment }\<close> is modelled by its compartment.\<close>

record 'pp compartment_descriptor =
  cd_label :: string
  cd_name :: string
  cd_path :: "string list"
  cd_location :: string
  cd_modules :: "module_descriptor object"
  cd_scopes :: "string object"
  cd_parsers :: "string object"
  cd_types :: "string object"
  cd_policy :: "'pp option"
  cd_compartments :: "string list"

record 'pp compartment_map =
  cm_tags :: "string list"
  cm_entry :: module_descriptor
  cm_compartments :: "'pp compartment_descriptor object"

text \<open>
  The closure \<^verbatim>\<open>digestExternalAliases(dependencyName, packageLocation)\<close> of
  \<^verbatim>\<open>translateGraph\<close>, with what it closes over (the graph, the policy, the package
  policy) as arguments and the two tables it writes (\<^verbatim>\<open>moduleDescriptors\<close>,
  \<^verbatim>\<open>scopes\<close>) as state.  Destructuring \<^verbatim>\<open>graph[packageLocation]\<close> throws a
  \<^verbatim>\<open>TypeError\<close> when the graph has no such key.
\<close>

definition digestExternalAliases ::
  "('pol, 'pp) imported \<Rightarrow> graph \<Rightarrow> 'pol option \<Rightarrow> 'pp option \<Rightarrow> string \<Rightarrow> string \<Rightarrow>
   module_descriptor object \<times> string object \<Rightarrow>
   error + module_descriptor object \<times> string object"
where
  "digestExternalAliases I graph policy packagePolicy dependencyName packageLocation tables =
     (case map_of graph packageLocation of
        None \<Rightarrow> Inl (TypeError packageLocation)
      | Some target \<Rightarrow>
          (let moduleDescriptors1 =
                 fold (\<lambda>(exportPath, targetPath) moduleDescriptors.
                         (let localPath = join I dependencyName exportPath
                          in if policy = None \<or>
                                (case packagePolicy of
                                   None \<Rightarrow> False
                                 | Some pp \<Rightarrow>
                                     dependencyAllowedByPolicy I
                                       (node_name target, node_path target) pp)
                             then AList.update localPath
                                    \<lparr>md_compartment = packageLocation,
                                     md_module = targetPath\<rparr> moduleDescriptors
                             else moduleDescriptors))
                   (sorted_entries (node_externalAliases target)) (fst tables);
               scopes1 =
                 (if \<not> node_explicitExports target
                  then AList.update dependencyName packageLocation (snd tables)
                  else snd tables)
           in Inr (moduleDescriptors1, scopes1)))"

text \<open>
  The body of the loop \<^verbatim>\<open>for (const dependeeLocation of keys(graph).sort())\<close> of
  \<^verbatim>\<open>translateGraph\<close>, for one entry of the graph: the compartment descriptor that
  the loop stores under \<^verbatim>\<open>compartments[dependeeLocation]\<close>.
\<close>

definition translateGraph_body ::
  "('pol, 'pp) imported \<Rightarrow> string \<Rightarrow> graph \<Rightarrow> 'pol option \<Rightarrow> string \<times> node \<Rightarrow>
   error + 'pp compartment_descriptor"
where
  "translateGraph_body I entryPackageLocation graph policy entry =
     (let dependeeLocation = fst entry; n = snd entry;
          packagePolicy =
            getPolicyForPackage I
              (dependeeLocation = entryPackageLocation, node_name n, node_path n) policy
      in if policy \<noteq> None \<and> packagePolicy = None then Inl FalsyPackagePolicy
         else
           (case digestExternalAliases I graph policy packagePolicy (node_name n)
                   dependeeLocation ([], []) of
              Inl e \<Rightarrow> Inl e
            | Inr tables0 \<Rightarrow>
                (case foldE (\<lambda>(dependencyName, dependencyLocation) (tables, compartmentNames).
                               (case digestExternalAliases I graph policy packagePolicy
                                       dependencyName dependencyLocation tables of
                                  Inl e \<Rightarrow> Inl e
                                | Inr tables' \<Rightarrow>
                                    Inr (tables', set_add compartmentNames dependencyLocation)))
                        (sorted_entries (node_dependencyLocations n)) (tables0, []) of
                   Inl e \<Rightarrow> Inl e
                 | Inr (tables1, compartmentNames) \<Rightarrow>
                     (let moduleDescriptors =
                            fold (\<lambda>(modulePath, facetTarget) moduleDescriptors.
                                    if isRelative facetTarget
                                    then AList.update modulePath
                                           \<lparr>md_compartment = dependeeLocation,
                                            md_module = facetTarget\<rparr> moduleDescriptors
                                    else moduleDescriptors)
                              (sorted_entries (node_internalAliases n)) (fst tables1)
                      in Inr \<lparr>cd_label = node_label n,
                              cd_name = node_name n,
                              cd_path = node_path n,
                              cd_location = dependeeLocation,
                              cd_modules = moduleDescriptors,
                              cd_scopes = snd tables1,
                              cd_parsers = node_parsers n,
                              cd_types = node_types n,
                              cd_policy = packagePolicy,
                              cd_compartments = compartmentNames\<rparr>))))"

definition translateGraph ::
  "('pol, 'pp) imported \<Rightarrow> string \<Rightarrow> string \<Rightarrow> graph \<Rightarrow> string list \<Rightarrow> 'pol option \<Rightarrow>
   error + 'pp compartment_map"
where
  "translateGraph I entryPackageLocation entryModuleSpecifier graph conditions policy =
     (case foldE (\<lambda>entry compartments.
                    (case translateGraph_body I entryPackageLocation graph policy entry of
                       Inl e \<Rightarrow> Inl e
                     | Inr compartment \<Rightarrow>
                         Inr (AList.update (fst entry) compartment compartments)))
             (sorted_entries graph) [] of
        Inl e \<Rightarrow> Inl e
      | Inr compartments \<Rightarrow>
          Inr \<lparr>cm_tags = conditions,
               cm_entry = \<lparr>md_compartment = entryPackageLocation,
                           md_module = entryModuleSpecifier\<rparr>,
               cm_compartments = compartments\<rparr>)"



section \<open>The compartment map of a package\<close>

text \<open>
  \<^verbatim>\<open>compartmentMapForNodeModules\<close>, under the given order of completions;
  \<open>conditionsOption\<close> is \<open>None\<close> when the caller passes \<^verbatim>\<open>undefined\<close>, and
  \<open>packageDescriptor\<close> likewise.  The spread
  \<^verbatim>\<open>{...graph[packageLocation], externalAliases: {}, label, name}\<close> of a missing
  node has none of the properties \<^verbatim>\<open>translateGraph\<close> reads, which then throws a
  \<^verbatim>\<open>TypeError\<close>.
\<close>

definition compartmentMapForNodeModules ::
  "nat list \<Rightarrow> ('pol, 'pp) imported \<Rightarrow> readPowers \<Rightarrow> location \<Rightarrow> string list option \<Rightarrow>
   descriptor option \<Rightarrow> string \<Rightarrow> 'pol options \<Rightarrow> 'pp compartment_map outcome"
where
  "compartmentMapForNodeModules completions I readPowers packageLocation conditionsOption
     packageDescriptor moduleSpecifier options =
     (let dev = opt_dev options;
          commonDependencies = opt_commonDependencies options;
          policy = opt_policy options;
          strict = opt_strict options;
          maybeRead = rp_maybeRead readPowers;
          canonical = rp_canonical readPowers;
          languageOptions = makeLanguageOptions options;
          conditions = new_Set (case conditionsOption of None \<Rightarrow> [] | Some c \<Rightarrow> c)
      in case graphPackages completions I maybeRead canonical packageLocation conditions
                packageDescriptor (dev \<or> ''development'' \<in> set conditions)
                commonDependencies languageOptions strict of
           None \<Rightarrow> None
         | Some (Inl e) \<Rightarrow> Some (Inl e)
         | Some (Inr graph) \<Rightarrow>
             (case policy of
                None \<Rightarrow>
                  Some (translateGraph I (href packageLocation) moduleSpecifier graph
                          conditions policy)
              | Some pol \<Rightarrow>
                  (case assertPolicy I pol of
                     Some e \<Rightarrow> Some (Inl e)
                   | None \<Rightarrow>
                       if map_of graph (ATTENUATORS_COMPARTMENT I) \<noteq> None then
                         Some (Inl (ReservedCompartmentName (ATTENUATORS_COMPARTMENT I)))
                       else
                         (case map_of graph (href packageLocation) of
                            None \<Rightarrow> Some (Inl (TypeError (ATTENUATORS_COMPARTMENT I)))
                          | Some entryNode \<Rightarrow>
                              Some (translateGraph I (href packageLocation) moduleSpecifier
                                      (AList.update (ATTENUATORS_COMPARTMENT I)
                                         (entryNode\<lparr>node_externalAliases := [],
                                                    node_label := ATTENUATORS_COMPARTMENT I,
                                                    node_name := ATTENUATORS_COMPARTMENT I\<rparr>)
                                         graph)
                                      conditions policy)))))"


text \<open>
  The graph that \<^verbatim>\<open>compartmentMapForNodeModules\<close> gets from \<^verbatim>\<open>graphPackages\<close>
  (\<^verbatim>\<open>const graph = await graphPackages(...)\<close>), as a function of its arguments.
\<close>

definition resolvedGraph ::
  "nat list \<Rightarrow> ('pol, 'pp) imported \<Rightarrow> readPowers \<Rightarrow> location \<Rightarrow> string list option \<Rightarrow>
   descriptor option \<Rightarrow> 'pol options \<Rightarrow> graph outcome"
where
  "resolvedGraph completions I readPowers packageLocation conditionsOption packageDescriptor options =
     (let conditions = new_Set (case conditionsOption of None \<Rightarrow> [] | Some c \<Rightarrow> c)
      in graphPackages completions I (rp_maybeRead readPowers) (rp_canonical readPowers)
           packageLocation conditions packageDescriptor
           (opt_dev options \<or> ''development'' \<in> set conditions)
           (opt_commonDependencies options) (makeLanguageOptions options)
           (opt_strict options))"


section \<open>Notions for the properties of the graph\<close>

text \<open>
  The keys of a graph; the packages a probe of the Package Finder can find; and the
  packages that can be reached from an entry package: the entry, and every package
  that the Package Finder locates for a dependency name of a package that can be
  reached.  A package is given with its location, its descriptor and whether its
  development dependencies count, which they do for the entry package at most.
\<close>

definition graphKeys :: "graph \<Rightarrow> string set" where
  "graphKeys graph = fst ` set graph"

definition installedPackages ::
  "(location \<Rightarrow> error + descriptor option) \<Rightarrow> (location \<Rightarrow> location) \<Rightarrow> location set"
where
  "installedPackages readDescriptorFn canonical =
     {location.
        (\<exists>directory name.
           location = canonical (resolveLocation (''node_modules/'' @ name @ ''/'') directory))
        \<and> (\<exists>descriptor. readDescriptorFn location = Inr (Some descriptor))}"

inductive_set reachablePackages ::
  "(location \<Rightarrow> error + descriptor option) \<Rightarrow> (location \<Rightarrow> location) \<Rightarrow>
   (string \<times> string) object \<Rightarrow> location \<times> descriptor \<times> bool \<Rightarrow>
   (location \<times> descriptor \<times> bool) set"
  for readDescriptorFn :: "location \<Rightarrow> error + descriptor option"
    and canonical :: "location \<Rightarrow> location"
    and commonDependencyDescriptors :: "(string \<times> string) object"
    and entry :: "location \<times> descriptor \<times> bool"
where
  entry: "entry \<in> reachablePackages readDescriptorFn canonical commonDependencyDescriptors entry"
| dependency:
    "(packageLocation, packageDescriptor, dev)
       \<in> reachablePackages readDescriptorFn canonical commonDependencyDescriptors entry \<Longrightarrow>
     name \<in> set (object_keys
                   (allDependenciesOf commonDependencyDescriptors packageDescriptor dev)) \<Longrightarrow>
     findPackage readDescriptorFn canonical packageLocation name
     = Inr (Some (dependencyLocation, dependencyDescriptor)) \<Longrightarrow>
     (dependencyLocation, dependencyDescriptor, False)
       \<in> reachablePackages readDescriptorFn canonical commonDependencyDescriptors entry"

text \<open>
  The length of the logical path of the node at a location, when there is one: a
  package registered by the child of another has a longer path than that one.
\<close>

definition nodeRank :: "graph \<Rightarrow> string \<Rightarrow> nat" where
  "nodeRank graph location =
     (case map_of graph location of None \<Rightarrow> 0 | Some result \<Rightarrow> length (node_path result))"

text \<open>
  What holds of the state between two completions: the graph has one node for each
  key, the entry package among them, and only packages that can be reached; a
  pending child belongs to a package that can be reached, whose call of
  \<^verbatim>\<open>graphPackage\<close> has not returned, and its logical path is longer than the
  one of that package; and a call that has not returned has its node in the graph,
  with a longer path than the node of the package whose child awaits it.
\<close>

definition builderInvariant ::
  "(location \<Rightarrow> error + descriptor option) \<Rightarrow> (location \<Rightarrow> location) \<Rightarrow>
   (string \<times> string) object \<Rightarrow> location \<times> descriptor \<times> bool \<Rightarrow> build_state \<Rightarrow> bool"
where
  "builderInvariant readDescriptorFn canonical commonDependencyDescriptors entry st =
     (distinct (map fst (bs_graph st))
      \<and> href (fst entry) \<in> graphKeys (bs_graph st)
      \<and> graphKeys (bs_graph st)
          \<subseteq> href ` fst ` reachablePackages readDescriptorFn canonical
                            commonDependencyDescriptors entry
      \<and> (\<forall>child \<in> set (bs_children st).
            (\<exists>packageDescriptor dev.
               (child_packageLocation child, packageDescriptor, dev)
                 \<in> reachablePackages readDescriptorFn canonical commonDependencyDescriptors
                     entry
               \<and> child_name child
                   \<in> set (object_keys
                            (allDependenciesOf commonDependencyDescriptors
                               packageDescriptor dev)))
            \<and> href (child_packageLocation child) \<in> href ` fst ` set (bs_awaited st)
            \<and> nodeRank (bs_graph st) (href (child_packageLocation child))
                < length (child_logicalPath child))
      \<and> (\<forall>(location, awaiter) \<in> set (bs_awaited st).
            href location \<in> graphKeys (bs_graph st)
            \<and> (\<forall>parent. awaiter = Some parent \<longrightarrow>
                   parent \<in> graphKeys (bs_graph st)
                   \<and> nodeRank (bs_graph st) parent
                       < nodeRank (bs_graph st) (href location))))"

text \<open>
  Every dependency of a registered package is the matter of a pending search, or
  has been looked for, and registered if it was found.
\<close>

definition dependenciesExplored ::
  "(location \<Rightarrow> error + descriptor option) \<Rightarrow> (location \<Rightarrow> location) \<Rightarrow>
   (string \<times> string) object \<Rightarrow> location \<times> descriptor \<times> bool \<Rightarrow> build_state \<Rightarrow> bool"
where
  "dependenciesExplored readDescriptorFn canonical commonDependencyDescriptors entry st =
     (\<forall>(packageLocation, packageDescriptor, dev)
         \<in> reachablePackages readDescriptorFn canonical commonDependencyDescriptors entry.
        href packageLocation \<in> graphKeys (bs_graph st) \<longrightarrow>
        (\<forall>name \<in> set (object_keys
                         (allDependenciesOf commonDependencyDescriptors packageDescriptor
                            dev)).
           (\<exists>child \<in> set (bs_children st).
              child_packageLocation child = packageLocation \<and> child_name child = name)
           \<or> (\<forall>dependencyLocation dependencyDescriptor.
                 findPackage readDescriptorFn canonical packageLocation name
                 = Inr (Some (dependencyLocation, dependencyDescriptor)) \<longrightarrow>
                 href dependencyLocation \<in> graphKeys (bs_graph st))))"

text \<open>No call of \<^verbatim>\<open>graphPackage\<close> that has not returned can return now.\<close>

definition noneCanReturn :: "build_state \<Rightarrow> bool" where
  "noneCanReturn st =
     (\<forall>(packageLocation, awaiter) \<in> set (bs_awaited st).
        \<not> childrenSettled packageLocation st)"

text \<open>
  The searches that remain to be completed, at most: those that are pending, and
  one for each dependency name of each installed package that is not in the graph.
\<close>

definition searchesAhead ::
  "(location \<Rightarrow> error + descriptor option) \<Rightarrow> (location \<Rightarrow> location) \<Rightarrow>
   (string \<times> string) object \<Rightarrow> build_state \<Rightarrow> nat"
where
  "searchesAhead readDescriptorFn canonical commonDependencyDescriptors st =
     length (bs_children st)
     + (\<Sum>location \<in> {location \<in> installedPackages readDescriptorFn canonical.
                         href location \<notin> graphKeys (bs_graph st)}.
          case readDescriptorFn location of
            Inr (Some packageDescriptor) \<Rightarrow>
              length (object_keys
                        (allDependenciesOf commonDependencyDescriptors packageDescriptor
                           False))
          | _ \<Rightarrow> 0)"

section \<open>A package layout to run the code on\<close>

text \<open>
  An application at \<^verbatim>\<open>/app/\<close> that depends on two packages installed under
  \<^verbatim>\<open>/app/node_modules/\<close>, which depend on each other; one of them also has an
  optional dependency that is not installed.  The text of a manifest is
  modelled by the name of its package, which \<open>example_parse\<close> turns into the
  descriptor; the other imported functions are simple stand-ins with the behaviour
  their callers in node-modules.js rely on.
\<close>

definition manifest :: "string \<Rightarrow> string object \<Rightarrow> descriptor" where
  "manifest name dependencies =
     \<lparr>pkg_name = name, pkg_version = ''1.0.0'', pkg_dependencies = dependencies,
      pkg_peerDependencies = [], pkg_peerDependenciesMeta = [],
      pkg_bundleDependencies = [], pkg_optionalDependencies = [],
      pkg_devDependencies = [], pkg_exports = None, pkg_type = None,
      pkg_module = False, pkg_parsers = ParsersAbsent\<rparr>"

definition example_manifests :: "descriptor object" where
  "example_manifests =
     [(''app'', manifest ''app'' [(''a'', ''^1.0.0''), (''b'', ''^1.0.0'')]),
      (''a'', manifest ''a'' [(''b'', ''^1.0.0'')]),
      (''b'', (manifest ''b'' [(''a'', ''^1.0.0'')])
                \<lparr>pkg_optionalDependencies := [(''q'', ''^1.0.0'')]\<rparr>)]"

definition example_parse :: "string \<Rightarrow> location \<Rightarrow> error + descriptor" where
  "example_parse text location =
     (case map_of example_manifests text of
        None \<Rightarrow> Inl (CollaboratorError ''SyntaxError'')
      | Some descriptor \<Rightarrow> Inr descriptor)"

definition example_disk :: "location \<Rightarrow> string option" where
  "example_disk location =
     (if location = [''app'', ''package.json''] then Some ''app''
      else if location = [''app'', ''node_modules'', ''a'', ''package.json''] then Some ''a''
      else if location = [''app'', ''node_modules'', ''b'', ''package.json''] then Some ''b''
      else None)"

definition example_powers :: readPowers where
  "example_powers = \<lparr>rp_maybeRead = example_disk, rp_canonical = (\<lambda>location. location)\<rparr>"

text \<open>
  A policy lists, for each package name, the names of the dependencies it may
  import; a package policy is that list.
\<close>

definition example_imported :: "((string \<times> string list) list, string list) imported" where
  "example_imported =
     \<lparr>parseLocatedJson = example_parse,
      inferExportsAndAliases =
        (\<lambda>descriptor conditions. ([(''.'', ''./index.js'')], [], [])),
      searchDescriptor = (\<lambda>location readDescriptorFn. Inr None),
      pathCompare =
        (\<lambda>a b. case b of None \<Rightarrow> - 1
                | Some b' \<Rightarrow> if length a < length b' then - 1
                            else if length b' < length a then 1 else 0),
      join =
        (\<lambda>base spec. if spec = ''.'' then base
                      else base @ ''/'' @ (if startsWith spec ''./'' then drop 2 spec else spec)),
      assertPolicy = (\<lambda>policy. None),
      getPolicyForPackage =
        (\<lambda>namingKit policy.
            case policy of
              None \<Rightarrow> None
            | Some pol \<Rightarrow>
                (case map_of pol (fst (snd namingKit)) of
                   None \<Rightarrow> Some []
                 | Some allowed \<Rightarrow> Some allowed)),
      dependencyAllowedByPolicy =
        (\<lambda>namingKit packagePolicy. fst namingKit \<in> set packagePolicy),
      ATTENUATORS_COMPARTMENT = ''<ATTENUATORS>''\<rparr>"

definition example_options :: "(string \<times> string list) list options" where
  "example_options =
     \<lparr>opt_dev = False, opt_commonDependencies = [], opt_policy = None,
      opt_strict = True, opt_languageForExtension = [],
      opt_moduleLanguageForExtension = [], opt_commonjsLanguageForExtension = [],
      opt_workspaceLanguageForExtension = [],
      opt_workspaceModuleLanguageForExtension = [],
      opt_workspaceCommonjsLanguageForExtension = [], opt_languages = []\<rparr>"

text \<open>
  A disk on which the only manifest is the one of a package \<^verbatim>\<open>bar\<close> installed in
  a \<^verbatim>\<open>node_modules\<close> directory that lies directly inside another one.
\<close>

definition nested_disk :: "location \<Rightarrow> error + descriptor option" where
  "nested_disk location =
     (if location = [''app'', ''node_modules'', ''node_modules'', ''bar'', '''']
      then Inr (Some (manifest ''bar'' [])) else Inr None)"



text \<open>
  The graph of that layout when the host completes the searches in the order in
  which they were started, and its compartments under a policy that lets the
  application import \<^verbatim>\<open>a\<close> only and lets \<^verbatim>\<open>a\<close> import \<^verbatim>\<open>b\<close>.
\<close>

definition example_parsers :: "string object" where
  "example_parsers =
     [(''mjs'', ''mjs''), (''cjs'', ''cjs''), (''json'', ''json''), (''text'', ''text''),
      (''bytes'', ''bytes''), (''js'', ''cjs'')]"

definition example_node :: "string \<Rightarrow> string list \<Rightarrow> string object \<Rightarrow> node" where
  "example_node name path dependencyLocations =
     \<lparr>node_label = name @ ''-v1.0.0'', node_name = name, node_path = path,
      node_explicitExports = False, node_internalAliases = [],
      node_externalAliases = [(''.'', ''./index.js'')],
      node_dependencyLocations = dependencyLocations,
      node_parsers = example_parsers, node_types = []\<rparr>"

definition example_graph :: graph where
  "example_graph =
     [(''file:///app/'',
       example_node ''app'' []
         [(''a'', ''file:///app/node_modules/a/''), (''b'', ''file:///app/node_modules/b/'')]),
      (''file:///app/node_modules/a/'',
       example_node ''a'' [''a''] [(''b'', ''file:///app/node_modules/b/'')]),
      (''file:///app/node_modules/b/'',
       example_node ''b'' [''b''] [(''a'', ''file:///app/node_modules/a/'')])]"

definition example_completions :: "nat list" where
  "example_completions = [0, 0, 0, 0, 0]"

definition example_policy :: "(string \<times> string list) list" where
  "example_policy = [(''app'', [''a'']), (''a'', [''b''])]"

definition example_compartment ::
  "string \<Rightarrow> string \<Rightarrow> string list \<Rightarrow> module_descriptor object \<Rightarrow> string object \<Rightarrow>
   string list \<Rightarrow> string list \<Rightarrow> string list compartment_descriptor"
where
  "example_compartment location name path modules scopes policy compartments =
     \<lparr>cd_label = name @ ''-v1.0.0'', cd_name = name, cd_path = path,
      cd_location = location, cd_modules = modules, cd_scopes = scopes,
      cd_parsers = example_parsers, cd_types = [], cd_policy = Some policy,
      cd_compartments = compartments\<rparr>"

definition example_app_compartment :: "string list compartment_descriptor" where
  "example_app_compartment =
     example_compartment ''file:///app/'' ''app'' []
       [(''a'', \<lparr>md_compartment = ''file:///app/node_modules/a/'',
                 md_module = ''./index.js''\<rparr>)]
       [(''app'', ''file:///app/''), (''a'', ''file:///app/node_modules/a/''),
        (''b'', ''file:///app/node_modules/b/'')]
       [''a'']
       [''file:///app/node_modules/a/'', ''file:///app/node_modules/b/'']"

definition example_compartment_map :: "string list compartment_map" where
  "example_compartment_map =
     \<lparr>cm_tags = [],
      cm_entry = \<lparr>md_compartment = ''file:///app/'', md_module = ''./index.js''\<rparr>,
      cm_compartments =
        [(''file:///app/'', example_app_compartment),
         (''file:///app/node_modules/a/'',
          example_compartment ''file:///app/node_modules/a/'' ''a'' [''a'']
            [(''b'', \<lparr>md_compartment = ''file:///app/node_modules/b/'',
                      md_module = ''./index.js''\<rparr>)]
            [(''a'', ''file:///app/node_modules/a/''), (''b'', ''file:///app/node_modules/b/'')]
            [''b'']
            [''file:///app/node_modules/b/'']),
         (''file:///app/node_modules/b/'',
          example_compartment ''file:///app/node_modules/b/'' ''b'' [''b''] []
            [(''b'', ''file:///app/node_modules/b/''), (''a'', ''file:///app/node_modules/a/'')]
            []
            [''file:///app/node_modules/a/''])]\<rparr>"


section \<open>Properties of the Package Finder\<close>

lemma lastIndexOf_snoc: "lastIndexOf (xs @ [c]) c = int (length xs)"
  by (induction xs) (auto simp: Let_def)

lemma pathname_snoc: "pathname (p @ [s]) = pathname p @ CHR ''/'' # s"
  by (simp add: pathname_def)

text \<open>The basename of a directory URL, which ends with a slash, is the empty string.\<close>

lemma basename_directory: "basename (p @ ['''']) = ''''"
  by (simp add: basename_def pathname_snoc lastIndexOf_snoc Let_def)

lemma basename_parent: "basename (resolveLocation ''../'' directory) = ''''"
  by (simp add: resolveLocation_parent basename_directory)

text \<open>
  Hence the branch \<^verbatim>\<open>if (base === 'node_modules')\<close> is never taken, and one turn of
  the loop of \<open>findPackage\<close> probes below \<open>directory\<close> and goes on with its parent,
  whatever the parent is called.
\<close>

lemma findPackage_loop:
  "findPackage readDescriptorFn canonical directory name =
     (case readDescriptorFn
             (canonical (resolveLocation (''node_modules/'' @ name @ ''/'') directory)) of
        Inl e \<Rightarrow> Inl e
      | Inr (Some packageDescriptor) \<Rightarrow>
          Inr (Some (canonical (resolveLocation (''node_modules/'' @ name @ ''/'') directory),
                     packageDescriptor))
      | Inr None \<Rightarrow>
          (if resolveLocation ''../'' directory = directory then Inr None
           else findPackage readDescriptorFn canonical
                  (resolveLocation ''../'' directory) name))"
  by (subst findPackage.simps)
     (simp add: Let_def basename_parent split: sum.splits option.splits)

text \<open>A search in which no read throws does not throw.\<close>

lemma findPackage_no_throw:
  assumes "\<And>location e. readDescriptorFn location \<noteq> Inl e"
  shows "\<exists>found. findPackage readDescriptorFn canonical directory name = Inr found"
proof (induction directory
    rule: measure_induct_rule
      [where f = "\<lambda>directory. if directory = [''''] then 0
                              else max (1::nat) (length directory)"])
  case (less directory)
  let ?probe = "canonical (resolveLocation (''node_modules/'' @ name @ ''/'') directory)"
  from assms obtain read where read: "readDescriptorFn ?probe = Inr read"
    by (cases "readDescriptorFn ?probe") auto
  show ?case
  proof (cases read)
    case (Some packageDescriptor)
    with read show ?thesis by (subst findPackage_loop) simp
  next
    case None
    show ?thesis
    proof (cases "resolveLocation ''../'' directory = directory")
      case True
      with read None show ?thesis by (subst findPackage_loop) simp
    next
      case False
      from parent_measure [OF False]
      have "\<exists>found. findPackage readDescriptorFn canonical
                      (resolveLocation ''../'' directory) name = Inr found"
        by (rule less.IH)
      with read None False show ?thesis by (subst findPackage_loop) simp
    qed
  qed
qed

text \<open>
  Claim C5.  \<^verbatim>\<open>findPackage\<close> is to skip a directory named \<^verbatim>\<open>node_modules\<close> when
  it ascends, so that it never probes a \<^verbatim>\<open>node_modules\<close> directory that lies
  directly inside another one.  The code does not: started in
  \<^verbatim>\<open>/app/node_modules/foo/\<close> for the name \<^verbatim>\<open>bar\<close>, its second probe is
  \<^verbatim>\<open>/app/node_modules/node_modules/bar/\<close>, and it returns the package it finds
  there.
\<close>

theorem findPackage_probes_nested_node_modules:
  "findPackage nested_disk (\<lambda>location. location)
     [''app'', ''node_modules'', ''foo'', ''''] ''bar''
   = Inr (Some ([''app'', ''node_modules'', ''node_modules'', ''bar'', ''''],
                manifest ''bar'' []))"
  by (simp add: findPackage.simps resolveLocation_def url_shorten_def nested_disk_def
        Let_def basename_def pathname_def)


section \<open>Missing dependencies and missing manifests\<close>

text \<open>
  Claim C3.  When the Package Finder cannot locate the dependency \<open>name\<close> of the
  package at \<open>packageLocation\<close>, \<^verbatim>\<open>gatherDependency\<close> throws the error that names
  the dependency and the location if and only if \<open>strict\<close> holds and the dependency
  is not optional; in every other case it returns normally and leaves the table of
  dependency locations and the state, hence the graph, as they were.
\<close>

theorem gatherDependency_missing:
  assumes "findPackage readDescriptorFn canonical packageLocation name = Inr None"
  shows "gatherDependency graphPackageFn I readDescriptorFn canonical dependencyLocations
           packageLocation name conditions languageOptions strict childLogicalPath optional
           commonDependencyDescriptors st =
         (if strict \<and> \<not> optional
          then Some (Inl (CannotFindDependency name (href packageLocation)))
          else Some (Inr (dependencyLocations, st)))"
  using assms by (simp add: gatherDependency_def)

theorem gatherDependency_missing_witness:
  "findPackage (\<lambda>location. Inr None) (\<lambda>location. location) [''app'', ''''] ''q'' = Inr None
   \<and> gatherDependency (graphPackage [] example_imported) example_imported
       (\<lambda>location. Inr None) (\<lambda>location. location) [] [''app'', ''''] ''q'' []
       (makeLanguageOptions example_options) True [''q''] True []
       \<lparr>bs_graph = [], bs_preferredPackageLogicalPathMap = [], bs_console = [],
        bs_children = [], bs_awaited = []\<rparr>
     = Some (Inr ([], \<lparr>bs_graph = [], bs_preferredPackageLogicalPathMap = [],
                       bs_console = [],
        bs_children = [], bs_awaited = []\<rparr>))
   \<and> gatherDependency (graphPackage [] example_imported) example_imported
       (\<lambda>location. Inr None) (\<lambda>location. location) [] [''app'', ''''] ''q'' []
       (makeLanguageOptions example_options) True [''q''] False []
       \<lparr>bs_graph = [], bs_preferredPackageLogicalPathMap = [], bs_console = [],
        bs_children = [], bs_awaited = []\<rparr>
     = Some (Inl (CannotFindDependency ''q'' ''file:///app/''))"
proof -
  have absent:
    "findPackage (\<lambda>location. Inr None) (\<lambda>location. location) [''app'', ''''] ''q''
     = Inr None"
    by (simp add: findPackage.simps resolveLocation_def url_shorten_def Let_def
          basename_def pathname_def)
  have name: "href [''app'', ''''] = ''file:///app/''"
    by (simp add: href_def pathname_def)
  note optional =
    gatherDependency_missing
      [OF absent, where strict = True and optional = True
         and graphPackageFn = "graphPackage [] example_imported" and I = example_imported
         and dependencyLocations = "[]" and conditions = "[]"
         and languageOptions = "makeLanguageOptions example_options"
         and childLogicalPath = "[''q'']" and commonDependencyDescriptors = "[]"
         and st = "\<lparr>bs_graph = [], bs_preferredPackageLogicalPathMap = [],
                    bs_console = [],
        bs_children = [], bs_awaited = []\<rparr>"]
  note required =
    gatherDependency_missing
      [OF absent, where strict = True and optional = False
         and graphPackageFn = "graphPackage [] example_imported" and I = example_imported
         and dependencyLocations = "[]" and conditions = "[]"
         and languageOptions = "makeLanguageOptions example_options"
         and childLogicalPath = "[''q'']" and commonDependencyDescriptors = "[]"
         and st = "\<lparr>bs_graph = [], bs_preferredPackageLogicalPathMap = [],
                    bs_console = [],
        bs_children = [], bs_awaited = []\<rparr>"]
  from optional have 1:
    "gatherDependency (graphPackage [] example_imported) example_imported
       (\<lambda>location. Inr None) (\<lambda>location. location) [] [''app'', ''''] ''q'' []
       (makeLanguageOptions example_options) True [''q''] True []
       \<lparr>bs_graph = [], bs_preferredPackageLogicalPathMap = [], bs_console = [],
        bs_children = [], bs_awaited = []\<rparr>
     = Some (Inr ([], \<lparr>bs_graph = [], bs_preferredPackageLogicalPathMap = [],
                       bs_console = [],
        bs_children = [], bs_awaited = []\<rparr>))"
    by (simp only: simp_thms if_False)
  from required have 2:
    "gatherDependency (graphPackage [] example_imported) example_imported
       (\<lambda>location. Inr None) (\<lambda>location. location) [] [''app'', ''''] ''q'' []
       (makeLanguageOptions example_options) True [''q''] False []
       \<lparr>bs_graph = [], bs_preferredPackageLogicalPathMap = [], bs_console = [],
        bs_children = [], bs_awaited = []\<rparr>
     = Some (Inl (CannotFindDependency ''q'' ''file:///app/''))"
    by (simp only: simp_thms if_True name)
  from absent 1 2 show ?thesis by (intro conjI)
qed

text \<open>
  Claim C8, as amended.  The Manifest Reader signals an absent manifest by
  returning \<^verbatim>\<open>undefined\<close>, at every location.  The Package Finder absorbs the
  absence: a probe that finds no manifest makes it go on with the parent directory,
  or return \<^verbatim>\<open>undefined\<close> at the root, and a search in which no read throws does
  not throw.  For the entry package the absence is fatal: when the caller supplies
  no descriptor and there is none at the location, \<^verbatim>\<open>graphPackages\<close> throws.
\<close>

theorem manifest_absence:
  "(maybeRead (resolveLocation ''package.json'' location) = None \<longrightarrow>
      readDescriptor I maybeRead location = Inr None)
   \<and> (readDescriptorFn
         (canonical (resolveLocation (''node_modules/'' @ name @ ''/'') directory))
       = Inr None \<longrightarrow>
      findPackage readDescriptorFn canonical directory name =
        (if resolveLocation ''../'' directory = directory then Inr None
         else findPackage readDescriptorFn canonical
                (resolveLocation ''../'' directory) name))
   \<and> ((\<forall>location e. readDescriptorFn location \<noteq> Inl e) \<longrightarrow>
      (\<exists>found. findPackage readDescriptorFn canonical directory name = Inr found))
   \<and> (maybeRead (resolveLocation ''package.json'' packageLocation) = None \<longrightarrow>
      graphPackages completions I maybeRead canonical packageLocation conditions None dev
        commonDependencies languageOptions strict
      = Some (Inl (CannotFindPackageJson (href packageLocation))))"
proof (intro conjI impI)
  assume "maybeRead (resolveLocation ''package.json'' location) = None"
  then show "readDescriptor I maybeRead location = Inr None"
    by (simp add: readDescriptor_def)
next
  assume "readDescriptorFn
            (canonical (resolveLocation (''node_modules/'' @ name @ ''/'') directory))
          = Inr None"
  then show "findPackage readDescriptorFn canonical directory name =
        (if resolveLocation ''../'' directory = directory then Inr None
         else findPackage readDescriptorFn canonical
                (resolveLocation ''../'' directory) name)"
    by (subst findPackage_loop) simp
next
  assume "\<forall>location e. readDescriptorFn location \<noteq> Inl e"
  then show "\<exists>found. findPackage readDescriptorFn canonical directory name = Inr found"
    by (intro findPackage_no_throw) simp
next
  assume "maybeRead (resolveLocation ''package.json'' packageLocation) = None"
  then show "graphPackages completions I maybeRead canonical packageLocation conditions None dev
        commonDependencies languageOptions strict
      = Some (Inl (CannotFindPackageJson (href packageLocation)))"
    by (simp add: graphPackages_def readDescriptorWithMemo_def readDescriptor_def)
qed

theorem manifest_absence_witness:
  "readDescriptor example_imported example_disk [''app'', ''node_modules'', ''q'', '''']
     = Inr None
   \<and> findPackage (readDescriptor example_imported example_disk) (\<lambda>location. location)
       [''app'', ''node_modules'', ''a'', ''''] ''b''
     = findPackage (readDescriptor example_imported example_disk) (\<lambda>location. location)
         [''app'', ''''] ''b''
   \<and> findPackage (readDescriptor example_imported example_disk) (\<lambda>location. location)
       [''app'', ''node_modules'', ''a'', ''''] ''b''
     = Inr (Some ([''app'', ''node_modules'', ''b'', ''''],
                  (manifest ''b'' [(''a'', ''^1.0.0'')])
                    \<lparr>pkg_optionalDependencies := [(''q'', ''^1.0.0'')]\<rparr>))
   \<and> graphPackages example_completions example_imported (\<lambda>location. None) (\<lambda>location. location)
       [''app'', ''''] [] None False [] (makeLanguageOptions example_options) True
     = Some (Inl (CannotFindPackageJson ''file:///app/''))"
proof -
  have reads: "\<forall>location e. readDescriptor example_imported example_disk location \<noteq> Inl e"
    by (auto simp: readDescriptor_def example_imported_def example_parse_def
          example_disk_def example_manifests_def Let_def)
  have absent:
    "example_disk (resolveLocation ''package.json'' [''app'', ''node_modules'', ''q'', ''''])
     = None"
    by (simp add: example_disk_def resolveLocation_def url_shorten_def)
  have probe:
    "readDescriptor example_imported example_disk
       (resolveLocation (''node_modules/'' @ ''b'' @ ''/'')
          [''app'', ''node_modules'', ''a'', '''']) = Inr None"
    by (simp add: readDescriptor_def example_disk_def resolveLocation_def url_shorten_def)
  have up: "resolveLocation ''../'' [''app'', ''node_modules'', ''a'', '''']
            = [''app'', ''node_modules'', '''']"
    by (simp add: resolveLocation_def url_shorten_def)
  have probe2:
    "readDescriptor example_imported example_disk
       (resolveLocation (''node_modules/'' @ ''b'' @ ''/'')
          [''app'', ''node_modules'', '''']) = Inr None"
    by (simp add: readDescriptor_def example_disk_def resolveLocation_def url_shorten_def)
  have up2: "resolveLocation ''../'' [''app'', ''node_modules'', ''''] = [''app'', '''']"
    by (simp add: resolveLocation_def url_shorten_def)
  have found:
    "findPackage (readDescriptor example_imported example_disk) (\<lambda>location. location)
       [''app'', ''''] ''b''
     = Inr (Some ([''app'', ''node_modules'', ''b'', ''''],
                  (manifest ''b'' [(''a'', ''^1.0.0'')])
                    \<lparr>pkg_optionalDependencies := [(''q'', ''^1.0.0'')]\<rparr>))"
    by (subst findPackage_loop)
       (simp add: readDescriptor_def example_disk_def resolveLocation_def url_shorten_def
          example_imported_def example_parse_def example_manifests_def)
  have name: "href [''app'', ''''] = ''file:///app/''"
    by (simp add: href_def pathname_def)
  note step1 =
    manifest_absence
      [where maybeRead = example_disk and I = example_imported
         and location = "[''app'', ''node_modules'', ''q'', '''']"
         and readDescriptorFn = "readDescriptor example_imported example_disk"
         and canonical = "\<lambda>location. location" and name = "''b''"
         and directory = "[''app'', ''node_modules'', ''a'', '''']"
         and packageLocation = "[''app'', ''node_modules'', ''q'', '''']"]
  note step2 =
    manifest_absence
      [where maybeRead = "\<lambda>location. None" and I = example_imported
         and location = "[''app'', '''']"
         and readDescriptorFn = "readDescriptor example_imported example_disk"
         and canonical = "\<lambda>location. location" and name = "''b''"
         and directory = "[''app'', ''node_modules'', '''']"
         and packageLocation = "[''app'', '''']" and completions = example_completions and conditions = "[]"
         and dev = False and commonDependencies = "[]"
         and languageOptions = "makeLanguageOptions example_options" and strict = True]
  from step1 absent have 1:
    "readDescriptor example_imported example_disk [''app'', ''node_modules'', ''q'', '''']
     = Inr None"
    by blast
  from step1 probe up have 2:
    "findPackage (readDescriptor example_imported example_disk) (\<lambda>location. location)
       [''app'', ''node_modules'', ''a'', ''''] ''b''
     = findPackage (readDescriptor example_imported example_disk) (\<lambda>location. location)
         [''app'', ''node_modules'', ''''] ''b''"
    by simp
  from step2 probe2 up2 have 3:
    "findPackage (readDescriptor example_imported example_disk) (\<lambda>location. location)
       [''app'', ''node_modules'', ''''] ''b''
     = findPackage (readDescriptor example_imported example_disk) (\<lambda>location. location)
         [''app'', ''''] ''b''"
    by simp
  from step2 name have 4:
    "graphPackages example_completions example_imported (\<lambda>location. None) (\<lambda>location. location)
       [''app'', ''''] [] None False [] (makeLanguageOptions example_options) True
     = Some (Inl (CannotFindPackageJson ''file:///app/''))"
    by simp
  from 1 2 3 4 found show ?thesis by simp
qed

theorem entry_manifest_missing_counterexample:
  "compartmentMapForNodeModules example_completions example_imported
     \<lparr>rp_maybeRead = (\<lambda>location. None), rp_canonical = (\<lambda>location. location)\<rparr>
     [''app'', ''''] None None ''./index.js'' example_options
   = Some (Inl (CannotFindPackageJson ''file:///app/''))"
  by code_simp


section \<open>Properties of the Graph Translator\<close>

lemma set_insort_key_fst:
  "fst ` set (insort_key fst x xs) = insert (fst x) (fst ` set xs)"
  by (simp add: set_insort_key)

lemma distinct_map_insort_key:
  "distinct (map f (insort_key f x xs)) = (f x \<notin> f ` set xs \<and> distinct (map f xs))"
  by (induction xs) (auto simp: set_insort_key)

lemma distinct_map_sort_key:
  "distinct (map f (sort_key f xs)) = distinct (map f xs)"
  by (induction xs) (auto simp: distinct_map_insort_key)

lemma distinct_sorted_entries: "distinct (map fst (sorted_entries obj))"
  by (simp add: sorted_entries_def distinct_map_sort_key)

lemma sorted_entries_iff:
  "((k, v) \<in> set (sorted_entries obj)) = (map_of obj k = Some v)"
proof -
  have "((k, v) \<in> set (AList.clearjunk obj)) = (map_of (AList.clearjunk obj) k = Some v)"
    by (simp add: map_of_eq_Some_iff)
  then show ?thesis
    by (simp add: sorted_entries_def map_of_clearjunk)
qed

lemma sorted_entries_same_key:
  assumes "(k, v) \<in> set (sorted_entries obj)" "(k, v') \<in> set (sorted_entries obj)"
  shows "v = v'"
  using assms by (simp add: sorted_entries_iff)

text \<open>A loop with an invariant that every turn keeps.\<close>

lemma foldE_invariant:
  assumes "foldE f xs s = Inr s'" "P s"
    and "\<And>x s s'. x \<in> set xs \<Longrightarrow> P s \<Longrightarrow> f x s = Inr s' \<Longrightarrow> P s'"
  shows "P s'"
  using assms
proof (induction xs arbitrary: s)
  case Nil
  then show ?case by simp
next
  case (Cons x xs)
  from Cons.prems(1) obtain s1 where s1: "f x s = Inr s1" and rest: "foldE f xs s1 = Inr s'"
    by (auto split: sum.splits)
  from Cons.prems(2) s1 have "P s1" by (intro Cons.prems(3) [of x s s1]) simp_all
  with rest show ?case by (intro Cons.IH [of s1]) (auto intro: Cons.prems(3))
qed

text \<open>A loop in which the turn for \<open>x\<close> establishes \<open>Q\<close> and every turn keeps it.\<close>

lemma foldE_established:
  assumes "foldE f xs s = Inr s'" "x \<in> set xs"
    and "\<And>s s'. f x s = Inr s' \<Longrightarrow> Q s'"
    and "\<And>y s s'. y \<in> set xs \<Longrightarrow> Q s \<Longrightarrow> f y s = Inr s' \<Longrightarrow> Q s'"
  shows "Q s'"
  using assms
proof (induction xs arbitrary: s)
  case Nil
  then show ?case by simp
next
  case (Cons y ys)
  from Cons.prems(1) obtain s1 where s1: "f y s = Inr s1" and rest: "foldE f ys s1 = Inr s'"
    by (auto split: sum.splits)
  show ?case
  proof (cases "x = y")
    case True
    with s1 have "Q s1" by (auto intro: Cons.prems(3))
    with rest show ?thesis
      by (rule foldE_invariant) (auto intro: Cons.prems(4))
  next
    case False
    with Cons.prems(2) have "x \<in> set ys" by simp
    with rest show ?thesis
      by (intro Cons.IH [of s1]) (auto intro: Cons.prems(3,4))
  qed
qed

lemma foldE_defined:
  assumes "foldE f xs s = Inr s'" "x \<in> set xs"
  shows "\<exists>s1 s2. f x s1 = Inr s2"
  using assms
proof (induction xs arbitrary: s)
  case Nil
  then show ?case by simp
next
  case (Cons y ys)
  from Cons.prems(1) obtain s1 where s1: "f y s = Inr s1" and rest: "foldE f ys s1 = Inr s'"
    by (auto split: sum.splits)
  show ?case
  proof (cases "x = y")
    case True
    with s1 show ?thesis by blast
  next
    case False
    with Cons.prems(2) have "x \<in> set ys" by simp
    with rest show ?thesis by (rule Cons.IH)
  qed
qed

lemma fold_guarded_update:
  assumes "map_of (fold (\<lambda>(k, v) acc. if c then AList.update (g k) (h v) acc else acc)
                     xs m) spec = Some md"
  shows "map_of m spec = Some md \<or> (c \<and> md \<in> h ` snd ` set xs)"
  using assms
proof (induction xs arbitrary: m)
  case Nil
  then show ?case by simp
next
  case (Cons x xs)
  obtain k v where x: "x = (k, v)" by (cases x)
  from Cons.prems x
  have "map_of (if c then AList.update (g k) (h v) m else m) spec = Some md
        \<or> (c \<and> md \<in> h ` snd ` set xs)"
    by (intro Cons.IH) simp
  then show ?case
    using x by (auto simp: update_conv' split: if_splits)
qed

lemma digestExternalAliases_unfold:
  "digestExternalAliases I graph policy packagePolicy dependencyName packageLocation tables =
     (case map_of graph packageLocation of
        None \<Rightarrow> Inl (TypeError packageLocation)
      | Some target \<Rightarrow>
          Inr (fold (\<lambda>(exportPath, targetPath) moduleDescriptors.
                       if policy = None \<or>
                          (case packagePolicy of
                             None \<Rightarrow> False
                           | Some pp \<Rightarrow>
                               dependencyAllowedByPolicy I
                                 (node_name target, node_path target) pp)
                       then AList.update (join I dependencyName exportPath)
                              \<lparr>md_compartment = packageLocation, md_module = targetPath\<rparr>
                              moduleDescriptors
                       else moduleDescriptors)
                 (sorted_entries (node_externalAliases target)) (fst tables),
               if \<not> node_explicitExports target
               then AList.update dependencyName packageLocation (snd tables)
               else snd tables))"
  unfolding digestExternalAliases_def Let_def by (rule refl)
lemma digestExternalAliases_result:
  assumes "digestExternalAliases I graph policy packagePolicy dependencyName packageLocation
             tables = Inr tables'"
  shows "\<exists>target. map_of graph packageLocation = Some target
           \<and> snd tables' =
               (if \<not> node_explicitExports target
                then AList.update dependencyName packageLocation (snd tables)
                else snd tables)
           \<and> (\<forall>spec md. map_of (fst tables') spec = Some md \<longrightarrow>
                 map_of (fst tables) spec = Some md
                 \<or> (md_compartment md = packageLocation
                    \<and> (policy = None
                       \<or> (\<exists>pp. packagePolicy = Some pp
                            \<and> dependencyAllowedByPolicy I
                                 (node_name target, node_path target) pp))))"
proof (cases "map_of graph packageLocation")
  case None
  with assms show ?thesis
    by (simp add: digestExternalAliases_unfold)
next
  case (Some target)
  let ?allowed = "policy = None \<or>
      (case packagePolicy of None \<Rightarrow> False
       | Some pp \<Rightarrow> dependencyAllowedByPolicy I (node_name target, node_path target) pp)"
  let ?h = "\<lambda>targetPath. \<lparr>md_compartment = packageLocation, md_module = targetPath\<rparr>"
  let ?m = "fold (\<lambda>(exportPath, targetPath) moduleDescriptors.
              if ?allowed
              then AList.update (join I dependencyName exportPath) (?h targetPath)
                     moduleDescriptors
              else moduleDescriptors)
        (sorted_entries (node_externalAliases target)) (fst tables)"
  let ?s = "if \<not> node_explicitExports target
       then AList.update dependencyName packageLocation (snd tables) else snd tables"
  from assms Some have tables': "tables' = (?m, ?s)"
    by (simp add: digestExternalAliases_unfold)
  have modules: "map_of (fst tables) spec = Some md
        \<or> (md_compartment md = packageLocation \<and> ?allowed)"
    if "map_of (fst tables') spec = Some md" for spec md
  proof -
    from that have "map_of ?m spec = Some md" by (simp only: tables' fst_conv)
    then have "map_of (fst tables) spec = Some md
        \<or> (?allowed \<and> md \<in> ?h ` snd ` set (sorted_entries (node_externalAliases target)))"
      by (rule fold_guarded_update)
    then show ?thesis by auto
  qed
  have allowed: "policy = None
                       \<or> (\<exists>pp. packagePolicy = Some pp
                            \<and> dependencyAllowedByPolicy I
                                 (node_name target, node_path target) pp)"
    if "?allowed"
    using that by (cases packagePolicy) simp_all
  have "snd tables' = ?s" by (simp only: tables' snd_conv)
  with Some modules allowed show ?thesis by blast
qed
text \<open>The stages of one turn of the loop of \<open>translateGraph\<close> that succeeds.\<close>

lemma translateGraph_body_Inr:
  assumes "translateGraph_body I entryPackageLocation graph policy (location, n) = Inr c"
  obtains tables0 tables1 compartmentNames where
    "policy \<noteq> None \<Longrightarrow>
       getPolicyForPackage I (location = entryPackageLocation, node_name n, node_path n)
         policy \<noteq> None"
    "digestExternalAliases I graph policy
       (getPolicyForPackage I (location = entryPackageLocation, node_name n, node_path n)
          policy)
       (node_name n) location ([], []) = Inr tables0"
    "foldE (\<lambda>(dependencyName, dependencyLocation) (tables, compartmentNames).
              (case digestExternalAliases I graph policy
                      (getPolicyForPackage I
                         (location = entryPackageLocation, node_name n, node_path n) policy)
                      dependencyName dependencyLocation tables of
                 Inl e \<Rightarrow> Inl e
               | Inr tables' \<Rightarrow> Inr (tables', set_add compartmentNames dependencyLocation)))
       (sorted_entries (node_dependencyLocations n)) (tables0, [])
     = Inr (tables1, compartmentNames)"
    "cd_modules c =
       fold (\<lambda>(modulePath, facetTarget) moduleDescriptors.
               if isRelative facetTarget
               then AList.update modulePath
                      \<lparr>md_compartment = location, md_module = facetTarget\<rparr>
                      moduleDescriptors
               else moduleDescriptors)
         (sorted_entries (node_internalAliases n)) (fst tables1)"
    "cd_scopes c = snd tables1"
    "cd_compartments c = compartmentNames"
    "cd_name c = node_name n" "cd_label c = node_label n" "cd_path c = node_path n"
    "cd_location c = location" "cd_parsers c = node_parsers n" "cd_types c = node_types n"
    "cd_policy c =
       getPolicyForPackage I (location = entryPackageLocation, node_name n, node_path n)
         policy"
  using assms unfolding translateGraph_body_def Let_def fst_conv snd_conv
  by (auto split: if_splits sum.splits prod.splits)
lemma fold_relative_update:
  assumes "map_of (fold (\<lambda>(k, v) acc. if c v then AList.update k (h v) acc else acc)
                     xs m) spec = Some md"
  shows "map_of m spec = Some md \<or> md \<in> h ` snd ` set xs"
  using assms
proof (induction xs arbitrary: m)
  case Nil
  then show ?case by simp
next
  case (Cons x xs)
  obtain k v where x: "x = (k, v)" by (cases x)
  from Cons.prems x
  have "map_of (if c v then AList.update k (h v) m else m) spec = Some md
        \<or> md \<in> h ` snd ` set xs"
    by (intro Cons.IH) simp
  then show ?case
    using x by (auto simp: update_conv' split: if_splits)
qed

lemma set_set_add: "set (set_add s x) = insert x (set s)"
  by (auto simp: set_add_def)

text \<open>The compartment names gathered by the loop over the dependency locations.\<close>

lemma foldE_compartmentNames:
  assumes "foldE (\<lambda>(dependencyName, dependencyLocation) (tables, compartmentNames).
                    (case g dependencyName dependencyLocation tables of
                       Inl e \<Rightarrow> Inl e
                     | Inr tables' \<Rightarrow>
                         Inr (tables', set_add compartmentNames dependencyLocation)))
             xs (tables, names) = Inr (tables1, names1)"
  shows "set names1 = set names \<union> snd ` set xs"
  using assms
proof (induction xs arbitrary: tables names)
  case Nil
  then show ?case by simp
next
  case (Cons x xs)
  obtain dependencyName dependencyLocation where x: "x = (dependencyName, dependencyLocation)"
    by (cases x)
  from Cons.prems x obtain tables'
    where "g dependencyName dependencyLocation tables = Inr tables'"
      and rest: "foldE (\<lambda>(dependencyName, dependencyLocation) (tables, compartmentNames).
                    (case g dependencyName dependencyLocation tables of
                       Inl e \<Rightarrow> Inl e
                     | Inr tables' \<Rightarrow>
                         Inr (tables', set_add compartmentNames dependencyLocation)))
             xs (tables', set_add names dependencyLocation) = Inr (tables1, names1)"
    by (auto split: sum.splits)
  from Cons.IH [OF rest] x show ?case by (auto simp: set_set_add)
qed

lemma snd_sorted_entries: "snd ` set (sorted_entries obj) = ran (map_of obj)"
proof -
  have "(v \<in> snd ` set (sorted_entries obj)) = (v \<in> ran (map_of obj))" for v
  proof -
    have "(v \<in> snd ` set (sorted_entries obj)) = (\<exists>k. (k, v) \<in> set (sorted_entries obj))"
      by force
    then show ?thesis by (simp add: sorted_entries_iff ran_def)
  qed
  then show ?thesis by blast
qed

text \<open>
  Every module descriptor of a compartment names the compartment itself or one of
  its compartment names, which are the dependency locations of its node.
\<close>

lemma translateGraph_body_modules:
  assumes body: "translateGraph_body I entryPackageLocation graph policy (location, n) = Inr c"
    and md: "map_of (cd_modules c) spec = Some md"
  shows "md_compartment md = location \<or> md_compartment md \<in> set (cd_compartments c)"
proof -
  let ?pp = "getPolicyForPackage I (location = entryPackageLocation, node_name n, node_path n)
               policy"
  from body obtain tables0 tables1 compartmentNames where
    self: "digestExternalAliases I graph policy ?pp (node_name n) location ([], [])
           = Inr tables0"
    and deps: "foldE (\<lambda>(dependencyName, dependencyLocation) (tables, compartmentNames).
              (case digestExternalAliases I graph policy ?pp
                      dependencyName dependencyLocation tables of
                 Inl e \<Rightarrow> Inl e
               | Inr tables' \<Rightarrow> Inr (tables', set_add compartmentNames dependencyLocation)))
       (sorted_entries (node_dependencyLocations n)) (tables0, [])
     = Inr (tables1, compartmentNames)"
    and modules: "cd_modules c =
       fold (\<lambda>(modulePath, facetTarget) moduleDescriptors.
               if isRelative facetTarget
               then AList.update modulePath
                      \<lparr>md_compartment = location, md_module = facetTarget\<rparr>
                      moduleDescriptors
               else moduleDescriptors)
         (sorted_entries (node_internalAliases n)) (fst tables1)"
    and names: "cd_compartments c = compartmentNames"
    by (rule translateGraph_body_Inr)
  let ?P = "\<lambda>s. \<forall>spec md. map_of (fst (fst s)) spec = Some md \<longrightarrow>
              md_compartment md = location \<or> md_compartment md \<in> set (snd s)"
  from digestExternalAliases_result [OF self]
  have start: "?P (tables0, [])" by fastforce
  have step: "?P s'"
    if "?P s" and
      "(\<lambda>(dependencyName, dependencyLocation) (tables, compartmentNames).
              (case digestExternalAliases I graph policy ?pp
                      dependencyName dependencyLocation tables of
                 Inl e \<Rightarrow> Inl e
               | Inr tables' \<Rightarrow> Inr (tables', set_add compartmentNames dependencyLocation)))
         x s = Inr s'" for x s s'
  proof -
    obtain dependencyName dependencyLocation where x: "x = (dependencyName, dependencyLocation)"
      by (cases x)
    obtain tables compartmentNames where s: "s = (tables, compartmentNames)" by (cases s)
    from that(2) x s obtain tables' where
      digest: "digestExternalAliases I graph policy ?pp dependencyName dependencyLocation
                 tables = Inr tables'"
      and s': "s' = (tables', set_add compartmentNames dependencyLocation)"
      by (auto split: sum.splits)
    from digestExternalAliases_result [OF digest]
    have "\<forall>spec md. map_of (fst tables') spec = Some md \<longrightarrow>
            map_of (fst tables) spec = Some md \<or> md_compartment md = dependencyLocation"
      by blast
    with that(1) s s' show ?thesis by (auto simp: set_set_add)
  qed
  from deps start have "?P (tables1, compartmentNames)"
    by (rule foldE_invariant) (rule step)
  moreover from md modules
  have "map_of (fst tables1) spec = Some md
        \<or> md \<in> (\<lambda>facetTarget. \<lparr>md_compartment = location, md_module = facetTarget\<rparr>)
                 ` snd ` set (sorted_entries (node_internalAliases n))"
    by (intro fold_relative_update [where c = isRelative]) simp
  ultimately show ?thesis using names by auto
qed

lemma translateGraph_body_compartments:
  assumes "translateGraph_body I entryPackageLocation graph policy (location, n) = Inr c"
  shows "set (cd_compartments c) = ran (map_of (node_dependencyLocations n))"
proof -
  from assms obtain tables0 tables1 compartmentNames where
    loop: "foldE (\<lambda>(dependencyName, dependencyLocation) (tables, compartmentNames).
              (case digestExternalAliases I graph policy
                      (getPolicyForPackage I
                         (location = entryPackageLocation, node_name n, node_path n) policy)
                      dependencyName dependencyLocation tables of
                 Inl e \<Rightarrow> Inl e
               | Inr tables' \<Rightarrow> Inr (tables', set_add compartmentNames dependencyLocation)))
       (sorted_entries (node_dependencyLocations n)) (tables0, [])
     = Inr (tables1, compartmentNames)"
    and names: "cd_compartments c = compartmentNames"
    by (rule translateGraph_body_Inr)
  from loop have "set compartmentNames
             = set [] \<union> snd ` set (sorted_entries (node_dependencyLocations n))"
    by (intro foldE_compartmentNames)
  with names show ?thesis
    by (simp add: snd_sorted_entries)
qed
text \<open>
  Under a policy whose fragment for this package does not allow the package at
  \<open>R\<close>, no module descriptor of another compartment names \<open>R\<close>.
\<close>

lemma translateGraph_body_forbidden:
  assumes body: "translateGraph_body I entryPackageLocation graph policy (location, n) = Inr c"
    and policy: "policy \<noteq> None"
    and fragment:
      "getPolicyForPackage I (location = entryPackageLocation, node_name n, node_path n)
         policy = Some pp"
    and R: "map_of graph R = Some nR"
    and forbidden: "\<not> dependencyAllowedByPolicy I (node_name nR, node_path nR) pp"
    and other: "R \<noteq> location"
    and md: "map_of (cd_modules c) spec = Some md"
  shows "md_compartment md \<noteq> R"
proof -
  let ?pp = "getPolicyForPackage I (location = entryPackageLocation, node_name n, node_path n)
               policy"
  from body obtain tables0 tables1 compartmentNames where
    self: "digestExternalAliases I graph policy ?pp (node_name n) location ([], [])
           = Inr tables0"
    and deps: "foldE (\<lambda>(dependencyName, dependencyLocation) (tables, compartmentNames).
              (case digestExternalAliases I graph policy ?pp
                      dependencyName dependencyLocation tables of
                 Inl e \<Rightarrow> Inl e
               | Inr tables' \<Rightarrow> Inr (tables', set_add compartmentNames dependencyLocation)))
       (sorted_entries (node_dependencyLocations n)) (tables0, [])
     = Inr (tables1, compartmentNames)"
    and modules: "cd_modules c =
       fold (\<lambda>(modulePath, facetTarget) moduleDescriptors.
               if isRelative facetTarget
               then AList.update modulePath
                      \<lparr>md_compartment = location, md_module = facetTarget\<rparr>
                      moduleDescriptors
               else moduleDescriptors)
         (sorted_entries (node_internalAliases n)) (fst tables1)"
    by (rule translateGraph_body_Inr)
  have digest: "\<forall>spec md. map_of (fst tables') spec = Some md \<longrightarrow>
                  map_of (fst tables) spec = Some md \<or> md_compartment md \<noteq> R"
    if "digestExternalAliases I graph policy ?pp dependencyName dependencyLocation tables
        = Inr tables'" for dependencyName dependencyLocation tables tables'
  proof (cases "dependencyLocation = R")
    case True
    from digestExternalAliases_result [OF that] True R policy fragment forbidden
    show ?thesis by auto
  next
    case False
    from digestExternalAliases_result [OF that] False show ?thesis by blast
  qed
  let ?P = "\<lambda>s. \<forall>spec md. map_of (fst (fst s)) spec = Some md \<longrightarrow> md_compartment md \<noteq> R"
  from digest [OF self] have start: "?P (tables0, [])" by simp
  have step: "?P s'"
    if "?P s" and
      "(\<lambda>(dependencyName, dependencyLocation) (tables, compartmentNames).
              (case digestExternalAliases I graph policy ?pp
                      dependencyName dependencyLocation tables of
                 Inl e \<Rightarrow> Inl e
               | Inr tables' \<Rightarrow> Inr (tables', set_add compartmentNames dependencyLocation)))
         x s = Inr s'" for x s s'
  proof -
    obtain dependencyName dependencyLocation where x: "x = (dependencyName, dependencyLocation)"
      by (cases x)
    obtain tables compartmentNames where s: "s = (tables, compartmentNames)" by (cases s)
    from that(2) x s obtain tables' where
      d: "digestExternalAliases I graph policy ?pp dependencyName dependencyLocation
                 tables = Inr tables'"
      and s': "s' = (tables', set_add compartmentNames dependencyLocation)"
      by (auto split: sum.splits)
    from digest [OF d] that(1) s s' show ?thesis by auto
  qed
  from deps start have "?P (tables1, compartmentNames)"
    by (rule foldE_invariant) (rule step)
  moreover from md modules
  have "map_of (fst tables1) spec = Some md
        \<or> md \<in> (\<lambda>facetTarget. \<lparr>md_compartment = location, md_module = facetTarget\<rparr>)
                 ` snd ` set (sorted_entries (node_internalAliases n))"
    by (intro fold_relative_update [where c = isRelative]) simp
  ultimately show ?thesis using other by auto
qed

text \<open>
  A dependency whose package has no explicit exports gets its scope, whatever the
  policy says.
\<close>

lemma translateGraph_body_scope:
  assumes body: "translateGraph_body I entryPackageLocation graph policy (location, n) = Inr c"
    and D: "map_of (node_dependencyLocations n) D = Some L"
    and L: "map_of graph L = Some target"
    and implicit: "\<not> node_explicitExports target"
  shows "map_of (cd_scopes c) D = Some L"
proof -
  let ?pp = "getPolicyForPackage I (location = entryPackageLocation, node_name n, node_path n)
               policy"
  let ?f = "\<lambda>(dependencyName, dependencyLocation) (tables, compartmentNames).
              (case digestExternalAliases I graph policy ?pp
                      dependencyName dependencyLocation tables of
                 Inl e \<Rightarrow> Inl e
               | Inr tables' \<Rightarrow> Inr (tables', set_add compartmentNames dependencyLocation))"
  from body obtain tables0 tables1 compartmentNames where
    deps: "foldE ?f (sorted_entries (node_dependencyLocations n)) (tables0, [])
           = Inr (tables1, compartmentNames)"
    and scopes: "cd_scopes c = snd tables1"
    by (rule translateGraph_body_Inr)
  let ?Q = "\<lambda>s. map_of (snd (fst s)) D = Some L"
  from D have member: "(D, L) \<in> set (sorted_entries (node_dependencyLocations n))"
    by (simp add: sorted_entries_iff)
  have establish: "?Q s'" if "?f (D, L) s = Inr s'" for s s'
  proof -
    obtain tables compartmentNames where s: "s = (tables, compartmentNames)" by (cases s)
    from that s obtain tables' where
      d: "digestExternalAliases I graph policy ?pp D L tables = Inr tables'"
      and s': "s' = (tables', set_add compartmentNames L)"
      by (auto split: sum.splits)
    from digestExternalAliases_result [OF d] L implicit
    have "snd tables' = AList.update D L (snd tables)" by auto
    with s' show ?thesis by (simp add: update_conv')
  qed
  have keep: "?Q s'"
    if "y \<in> set (sorted_entries (node_dependencyLocations n))" "?Q s" "?f y s = Inr s'"
    for y s s'
  proof -
    obtain D' L' where y: "y = (D', L')" by (cases y)
    obtain tables compartmentNames where s: "s = (tables, compartmentNames)" by (cases s)
    from that(3) y s obtain tables' where
      d: "digestExternalAliases I graph policy ?pp D' L' tables = Inr tables'"
      and s': "s' = (tables', set_add compartmentNames L')"
      by (auto split: sum.splits)
    from digestExternalAliases_result [OF d]
    have cases: "snd tables' = AList.update D' L' (snd tables) \<or> snd tables' = snd tables"
      by (auto split: if_splits)
    have same: "L' = L" if "D' = D"
      using that \<open>y \<in> set (sorted_entries (node_dependencyLocations n))\<close> y member
      by (auto dest: sorted_entries_same_key)
    from cases that(2) s s' same show ?thesis
      by (cases "D' = D") (auto simp: update_conv')
  qed
  from deps member have "?Q (tables1, compartmentNames)"
  proof (rule foldE_established [where Q = ?Q])
    fix s s'
    assume "?f (D, L) s = Inr s'"
    then show "?Q s'" by (rule establish)
  next
    fix y s s'
    assume "y \<in> set (sorted_entries (node_dependencyLocations n))" "?Q s" "?f y s = Inr s'"
    then show "?Q s'" by (rule keep)
  qed
  with scopes show ?thesis by simp
qed

text \<open>The compartments of the map are the translations of the nodes of the graph.\<close>

lemma foldE_compartments:
  assumes "foldE (\<lambda>entry compartments.
                    (case g entry of
                       Inl e \<Rightarrow> Inl e
                     | Inr compartment \<Rightarrow>
                         Inr (AList.update (fst entry) compartment compartments)))
             xs acc = Inr acc'"
    and "distinct (map fst xs)"
  shows "map_of acc' k =
           (case map_of xs k of
              None \<Rightarrow> map_of acc k
            | Some v \<Rightarrow> (case g (k, v) of Inl e \<Rightarrow> None | Inr compartment \<Rightarrow> Some compartment))"
  using assms
proof (induction xs arbitrary: acc)
  case Nil
  then show ?case by simp
next
  case (Cons x xs)
  obtain k' v' where x: "x = (k', v')" by (cases x)
  from Cons.prems(1) x obtain compartment where
    g: "g (k', v') = Inr compartment"
    and rest: "foldE (\<lambda>entry compartments.
                    (case g entry of
                       Inl e \<Rightarrow> Inl e
                     | Inr compartment \<Rightarrow>
                         Inr (AList.update (fst entry) compartment compartments)))
             xs (AList.update k' compartment acc) = Inr acc'"
    by (auto split: sum.splits)
  from Cons.prems(2) x have distinct: "distinct (map fst xs)" and fresh: "k' \<notin> fst ` set xs"
    by auto
  from fresh have none: "map_of xs k' = None"
    by (simp add: map_of_eq_None_iff)
  from Cons.IH [OF rest distinct] x g none show ?case
    by (auto simp: update_conv' split: option.splits)
qed

lemma translateGraph_compartment:
  assumes "translateGraph I entryPackageLocation entryModuleSpecifier graph conditions policy
           = Inr cm"
  shows "map_of (cm_compartments cm) location =
           (case map_of graph location of
              None \<Rightarrow> None
            | Some n \<Rightarrow>
                (case translateGraph_body I entryPackageLocation graph policy (location, n) of
                   Inl e \<Rightarrow> None
                 | Inr compartment \<Rightarrow> Some compartment))"
proof -
  from assms obtain compartments where
    loop: "foldE (\<lambda>entry compartments.
                    (case translateGraph_body I entryPackageLocation graph policy entry of
                       Inl e \<Rightarrow> Inl e
                     | Inr compartment \<Rightarrow>
                         Inr (AList.update (fst entry) compartment compartments)))
             (sorted_entries graph) [] = Inr compartments"
    and cm: "cm_compartments cm = compartments"
    by (auto simp: translateGraph_def split: sum.splits)
  have lookup: "map_of (sorted_entries graph) location = map_of graph location"
  proof (cases "map_of graph location")
    case None
    then have "location \<notin> fst ` set (sorted_entries graph)"
      by (auto simp: sorted_entries_iff)
    then have "map_of (sorted_entries graph) location = None"
      by (simp add: map_of_eq_None_iff)
    with None show ?thesis by simp
  next
    case (Some n)
    then have "(location, n) \<in> set (sorted_entries graph)" by (simp add: sorted_entries_iff)
    with Some show ?thesis by (simp add: distinct_sorted_entries)
  qed
  from foldE_compartments [OF loop distinct_sorted_entries, of location] cm lookup
  show ?thesis by (simp split: option.splits)
qed

lemma translateGraph_compartment_Some:
  assumes "translateGraph I entryPackageLocation entryModuleSpecifier graph conditions policy
           = Inr cm"
    and "map_of graph location = Some n"
  shows "\<exists>c. map_of (cm_compartments cm) location = Some c
           \<and> translateGraph_body I entryPackageLocation graph policy (location, n) = Inr c"
proof -
  from assms(2) have member: "(location, n) \<in> set (sorted_entries graph)"
    by (simp add: sorted_entries_iff)
  from assms(1) obtain compartments where
    loop: "foldE (\<lambda>entry compartments.
                    (case translateGraph_body I entryPackageLocation graph policy entry of
                       Inl e \<Rightarrow> Inl e
                     | Inr compartment \<Rightarrow>
                         Inr (AList.update (fst entry) compartment compartments)))
             (sorted_entries graph) [] = Inr compartments"
    by (auto simp: translateGraph_def split: sum.splits)
  from foldE_defined [OF loop member] obtain c where
    "translateGraph_body I entryPackageLocation graph policy (location, n) = Inr c"
    by (cases "translateGraph_body I entryPackageLocation graph policy (location, n)") auto
  with translateGraph_compartment [OF assms(1), of location] assms(2) show ?thesis by simp
qed

text \<open>The example: the graph is the one the Graph Builder makes, and its translation.\<close>

lemma example_graph_built:
  "graphPackages example_completions example_imported example_disk (\<lambda>location. location) [''app'', ''''] []
     None False [] (makeLanguageOptions example_options) True
   = Some (Inr example_graph)"
  by code_simp

lemma example_translation:
  "translateGraph example_imported ''file:///app/'' ''./index.js'' example_graph []
     (Some example_policy)
   = Inr example_compartment_map"
  by code_simp

text \<open>
  Claim C6.  In a compartment map made by \<^verbatim>\<open>translateGraph\<close>, every entry of the
  modules table of a compartment names either that compartment itself or a member
  of its compartment names, and the compartment names are the dependency locations
  of the node of the graph the compartment comes from.
\<close>

theorem translateGraph_modules_within_compartmentNames:
  assumes "translateGraph I entryPackageLocation entryModuleSpecifier graph conditions policy
           = Inr cm"
    and "map_of (cm_compartments cm) location = Some c"
    and "map_of (cd_modules c) specifier = Some md"
  shows "(md_compartment md = location \<or> md_compartment md \<in> set (cd_compartments c))
         \<and> (\<exists>n. map_of graph location = Some n
                \<and> set (cd_compartments c) = ran (map_of (node_dependencyLocations n)))"
proof -
  from translateGraph_compartment [OF assms(1), of location] assms(2)
  obtain n where n: "map_of graph location = Some n"
    and body: "translateGraph_body I entryPackageLocation graph policy (location, n) = Inr c"
    by (auto split: option.splits sum.splits)
  from translateGraph_body_modules [OF body assms(3)]
    translateGraph_body_compartments [OF body] n
  show ?thesis by blast
qed

theorem translateGraph_modules_within_compartmentNames_witness:
  "translateGraph example_imported ''file:///app/'' ''./index.js'' example_graph []
     (Some example_policy) = Inr example_compartment_map
   \<and> map_of (cm_compartments example_compartment_map) ''file:///app/''
       = Some example_app_compartment
   \<and> map_of (cd_modules example_app_compartment) ''a''
       = Some \<lparr>md_compartment = ''file:///app/node_modules/a/'', md_module = ''./index.js''\<rparr>
   \<and> ''file:///app/node_modules/a/'' \<in> set (cd_compartments example_app_compartment)
   \<and> set (cd_compartments example_app_compartment)
       = {''file:///app/node_modules/a/'', ''file:///app/node_modules/b/''}"
proof -
  have compartment:
    "map_of (cm_compartments example_compartment_map) ''file:///app/''
     = Some example_app_compartment"
    by (simp add: example_compartment_map_def)
  have module:
    "map_of (cd_modules example_app_compartment) ''a''
     = Some \<lparr>md_compartment = ''file:///app/node_modules/a/'', md_module = ''./index.js''\<rparr>"
    by (simp add: example_app_compartment_def example_compartment_def)
  have names: "set (cd_compartments example_app_compartment)
       = {''file:///app/node_modules/a/'', ''file:///app/node_modules/b/''}"
    by (simp add: example_app_compartment_def example_compartment_def)
  from translateGraph_modules_within_compartmentNames
         [OF example_translation compartment module]
  have "''file:///app/node_modules/a/'' \<in> set (cd_compartments example_app_compartment)"
    by simp
  with example_translation compartment module names show ?thesis by (intro conjI)
qed

text \<open>
  Claim C1.  When the policy fragment of a package \<open>P\<close> does not allow a package
  \<open>R\<close> of the graph, other than \<open>P\<close> itself, the modules table of the compartment
  of \<open>P\<close> in the map made by \<^verbatim>\<open>translateGraph\<close> has no entry whose descriptor
  names the compartment of \<open>R\<close>, and the compartment of \<open>R\<close> is in the map.
\<close>

theorem translateGraph_policy_exclusion:
  assumes "translateGraph I entryPackageLocation entryModuleSpecifier graph conditions
             (Some pol) = Inr cm"
    and "map_of graph P = Some nP"
    and "map_of graph R = Some nR"
    and "R \<noteq> P"
    and "getPolicyForPackage I (P = entryPackageLocation, node_name nP, node_path nP)
           (Some pol) = Some pp"
    and "\<not> dependencyAllowedByPolicy I (node_name nR, node_path nR) pp"
  shows "\<exists>cP cR. map_of (cm_compartments cm) P = Some cP
           \<and> map_of (cm_compartments cm) R = Some cR
           \<and> R \<notin> md_compartment ` ran (map_of (cd_modules cP))"
proof -
  from translateGraph_compartment_Some [OF assms(1,2)] obtain cP where
    cP: "map_of (cm_compartments cm) P = Some cP"
    and body: "translateGraph_body I entryPackageLocation graph (Some pol) (P, nP) = Inr cP"
    by blast
  from translateGraph_compartment_Some [OF assms(1,3)] obtain cR where
    cR: "map_of (cm_compartments cm) R = Some cR"
    by blast
  have "md_compartment md \<noteq> R" if "map_of (cd_modules cP) spec = Some md" for spec md
    using body _ assms(5) assms(3) assms(6) assms(4) that
    by (rule translateGraph_body_forbidden) simp
  then have "R \<notin> md_compartment ` ran (map_of (cd_modules cP))"
    by (auto simp: ran_def)
  with cP cR show ?thesis by blast
qed

theorem translateGraph_policy_exclusion_witness:
  "translateGraph example_imported ''file:///app/'' ''./index.js'' example_graph []
     (Some example_policy) = Inr example_compartment_map
   \<and> getPolicyForPackage example_imported (True, ''app'', []) (Some example_policy)
       = Some [''a'']
   \<and> \<not> dependencyAllowedByPolicy example_imported (''b'', [''b'']) [''a'']
   \<and> map_of (cm_compartments example_compartment_map) ''file:///app/''
       = Some example_app_compartment
   \<and> map_of (cm_compartments example_compartment_map) ''file:///app/node_modules/b/'' \<noteq> None
   \<and> ''file:///app/node_modules/b/''
       \<notin> md_compartment ` ran (map_of (cd_modules example_app_compartment))"
proof -
  have P: "map_of example_graph ''file:///app/''
           = Some (example_node ''app'' []
                     [(''a'', ''file:///app/node_modules/a/''),
                      (''b'', ''file:///app/node_modules/b/'')])"
    by (simp add: example_graph_def)
  have R: "map_of example_graph ''file:///app/node_modules/b/''
           = Some (example_node ''b'' [''b''] [(''a'', ''file:///app/node_modules/a/'')])"
    by (simp add: example_graph_def)
  have distinct: "''file:///app/node_modules/b/'' \<noteq> ''file:///app/''"
    by simp
  have fragment:
    "getPolicyForPackage example_imported (True, ''app'', []) (Some example_policy)
     = Some [''a'']"
    by (simp add: example_imported_def example_policy_def)
  have forbidden:
    "\<not> dependencyAllowedByPolicy example_imported (''b'', [''b'']) [''a'']"
    by (simp add: example_imported_def)
  have compartment:
    "map_of (cm_compartments example_compartment_map) ''file:///app/''
     = Some example_app_compartment"
    by (simp add: example_compartment_map_def)
  from translateGraph_policy_exclusion
         [OF example_translation P R distinct, of "[''a'']"] fragment forbidden
  obtain cP cR where
    "map_of (cm_compartments example_compartment_map) ''file:///app/'' = Some cP"
    "map_of (cm_compartments example_compartment_map) ''file:///app/node_modules/b/''
     = Some cR"
    "''file:///app/node_modules/b/'' \<notin> md_compartment ` ran (map_of (cd_modules cP))"
    by (auto simp: example_node_def)
  with compartment have
    "map_of (cm_compartments example_compartment_map) ''file:///app/node_modules/b/'' \<noteq> None"
    "''file:///app/node_modules/b/''
       \<notin> md_compartment ` ran (map_of (cd_modules example_app_compartment))"
    by simp_all
  with example_translation fragment forbidden compartment show ?thesis by (intro conjI)
qed

text \<open>
  Claim C10.  For a compartment \<open>C\<close> and a dependency name \<open>D\<close> of its node whose
  target package declares no explicit exports, \<^verbatim>\<open>translateGraph\<close> registers the
  scope \<open>D\<close> with the compartment of the target, under every policy and also
  without one: the policy guards the enumerated module descriptors only.
\<close>

theorem translateGraph_open_scope_unconditional:
  assumes "translateGraph I entryPackageLocation entryModuleSpecifier graph conditions policy
           = Inr cm"
    and "map_of graph C = Some n"
    and "map_of (node_dependencyLocations n) D = Some L"
    and "map_of graph L = Some target"
    and "\<not> node_explicitExports target"
  shows "\<exists>c. map_of (cm_compartments cm) C = Some c \<and> map_of (cd_scopes c) D = Some L"
proof -
  from translateGraph_compartment_Some [OF assms(1,2)] obtain c where
    c: "map_of (cm_compartments cm) C = Some c"
    and body: "translateGraph_body I entryPackageLocation graph policy (C, n) = Inr c"
    by blast
  from translateGraph_body_scope [OF body assms(3,4,5)] c show ?thesis by blast
qed

theorem translateGraph_open_scope_unconditional_witness:
  "translateGraph example_imported ''file:///app/'' ''./index.js'' example_graph []
     (Some example_policy) = Inr example_compartment_map
   \<and> getPolicyForPackage example_imported (True, ''app'', []) (Some example_policy)
       = Some [''a'']
   \<and> \<not> dependencyAllowedByPolicy example_imported (''b'', [''b'']) [''a'']
   \<and> map_of (cm_compartments example_compartment_map) ''file:///app/''
       = Some example_app_compartment
   \<and> map_of (cd_scopes example_app_compartment) ''b'' = Some ''file:///app/node_modules/b/''
   \<and> map_of (cd_modules example_app_compartment) ''b'' = None"
proof -
  have C: "map_of example_graph ''file:///app/''
           = Some (example_node ''app'' []
                     [(''a'', ''file:///app/node_modules/a/''),
                      (''b'', ''file:///app/node_modules/b/'')])"
    by (simp add: example_graph_def)
  have D: "map_of (node_dependencyLocations
                     (example_node ''app'' []
                        [(''a'', ''file:///app/node_modules/a/''),
                         (''b'', ''file:///app/node_modules/b/'')])) ''b''
           = Some ''file:///app/node_modules/b/''"
    by (simp add: example_node_def)
  have L: "map_of example_graph ''file:///app/node_modules/b/''
           = Some (example_node ''b'' [''b''] [(''a'', ''file:///app/node_modules/a/'')])"
    by (simp add: example_graph_def)
  have implicit:
    "\<not> node_explicitExports
         (example_node ''b'' [''b''] [(''a'', ''file:///app/node_modules/a/'')])"
    by (simp add: example_node_def)
  have fragment:
    "getPolicyForPackage example_imported (True, ''app'', []) (Some example_policy)
     = Some [''a'']"
    by (simp add: example_imported_def example_policy_def)
  have forbidden:
    "\<not> dependencyAllowedByPolicy example_imported (''b'', [''b'']) [''a'']"
    by (simp add: example_imported_def)
  have compartment:
    "map_of (cm_compartments example_compartment_map) ''file:///app/''
     = Some example_app_compartment"
    by (simp add: example_compartment_map_def)
  have modules: "map_of (cd_modules example_app_compartment) ''b'' = None"
    by (simp add: example_app_compartment_def example_compartment_def)
  from translateGraph_open_scope_unconditional [OF example_translation C D L implicit]
    compartment
  have "map_of (cd_scopes example_app_compartment) ''b'' = Some ''file:///app/node_modules/b/''"
    by simp
  with example_translation fragment forbidden compartment modules show ?thesis
    by (intro conjI)
qed



section \<open>Properties of the Graph Builder\<close>

text \<open>What the Package Finder finds is an installed package, with its descriptor.\<close>

lemma findPackage_found:
  assumes "findPackage readDescriptorFn canonical directory name
           = Inr (Some (location, descriptor))"
  shows "location \<in> installedPackages readDescriptorFn canonical
         \<and> readDescriptorFn location = Inr (Some descriptor)"
  using assms
proof (induction directory
    rule: measure_induct_rule
      [where f = "\<lambda>directory. if directory = [''''] then 0
                              else max (1::nat) (length directory)"])
  case (less directory)
  let ?probe = "canonical (resolveLocation (''node_modules/'' @ name @ ''/'') directory)"
  show ?case
  proof (cases "readDescriptorFn ?probe")
    case (Inl e)
    with less.prems show ?thesis by (subst (asm) findPackage_loop) simp
  next
    case (Inr read)
    show ?thesis
    proof (cases read)
      case (Some packageDescriptor)
      with Inr less.prems have "location = ?probe" "descriptor = packageDescriptor"
        by (subst (asm) findPackage_loop, simp)+
      with Inr Some show ?thesis
        unfolding installedPackages_def by blast
    next
      case None
      show ?thesis
      proof (cases "resolveLocation ''../'' directory = directory")
        case True
        with Inr None less.prems show ?thesis by (subst (asm) findPackage_loop) simp
      next
        case False
        with Inr None less.prems
        have "findPackage readDescriptorFn canonical (resolveLocation ''../'' directory) name
              = Inr (Some (location, descriptor))"
          by (subst (asm) findPackage_loop) simp
        with parent_measure [OF False] show ?thesis by (rule less.IH)
      qed
    qed
  qed
qed

text \<open>Assignments to the graph: its keys, and the ranks of its nodes.\<close>

lemma graphKeys_update: "graphKeys (AList.update k v graph) = insert k (graphKeys graph)"
  by (simp add: graphKeys_def dom_update)

lemma graphKeys_map_entry: "graphKeys (AList.map_entry k f graph) = graphKeys graph"
  by (simp add: graphKeys_def dom_map_entry)

lemma graphKeys_map_of: "(k \<in> graphKeys graph) = (map_of graph k \<noteq> None)"
  by (simp add: graphKeys_def map_of_eq_None_iff)

lemma nodeRank_update:
  "nodeRank (AList.update k v graph) k'
   = (if k' = k then length (node_path v) else nodeRank graph k')"
  by (simp add: nodeRank_def update_conv')

lemma nodeRank_map_entry:
  assumes "\<And>result. node_path (f result) = node_path result"
  shows "nodeRank (AList.map_entry k f graph) k' = nodeRank graph k'"
  using assms by (simp add: nodeRank_def map_of_map_entry split: option.splits)

lemma nodeRank_update_same_path:
  assumes "map_of graph k = Some result" and "node_path v = node_path result"
  shows "nodeRank (AList.update k v graph) k' = nodeRank graph k'"
  using assms by (simp add: nodeRank_def update_conv')

text \<open>The node that \<open>packageNode\<close> makes has the logical path it was given.\<close>

lemma packageNode_path:
  assumes "packageNode I name readDescriptorFn packageLocation packageDescriptor conditions
             languageOptions logicalPath = Inr result"
  shows "node_path result = logicalPath"
  using assms
  by (auto simp: packageNode_def Let_def split: prod.splits sum.splits)

text \<open>The two cases of a call of \<open>graphPackage_begin\<close>.\<close>

lemma graphPackage_begin_registered:
  assumes "map_of (bs_graph st) (href (fst dependency)) \<noteq> None"
  shows "graphPackage_begin awaiter I name readDescriptorFn canonical dependency conditions
           dev commonDependencyDescriptors languageOptions strict logicalPath st
         = Some (Inr st)"
  using assms by (simp add: graphPackage_begin_def)

lemma graphPackage_begin_returns:
  "graphPackage_begin awaiter I name readDescriptorFn canonical dependency conditions
     dev commonDependencyDescriptors languageOptions strict logicalPath st \<noteq> None"
  by (simp add: graphPackage_begin_def Let_def split: sum.splits)

lemma graphPackage_begin_registers:
  assumes call:
    "graphPackage_begin awaiter I name readDescriptorFn canonical
       (packageLocation, packageDescriptor) conditions dev commonDependencyDescriptors
       languageOptions strict logicalPath st = Some (Inr st')"
    and fresh: "map_of (bs_graph st) (href packageLocation) = None"
  obtains result where
    "node_path result = logicalPath"
    "bs_graph st' = AList.update (href packageLocation) result (bs_graph st)"
    "bs_children st'
     = bs_children st
       @ map (\<lambda>name.
                \<lparr>child_packageLocation = packageLocation, child_name = name,
                 child_logicalPath = logicalPath @ [name],
                 child_optional = (name \<in> set (optionalsOf packageDescriptor))\<rparr>)
           (sort (object_keys
                    (allDependenciesOf commonDependencyDescriptors packageDescriptor dev)))"
    "bs_awaited st' = bs_awaited st @ [(packageLocation, awaiter)]"
proof -
  from call fresh obtain result where
    node: "packageNode I name readDescriptorFn packageLocation packageDescriptor conditions
             languageOptions logicalPath = Inr result"
    by (auto simp: graphPackage_begin_def Let_def split: sum.splits)
  from call fresh node have
    "bs_graph st' = AList.update (href packageLocation) result (bs_graph st)"
    "bs_children st'
     = bs_children st
       @ map (\<lambda>name.
                \<lparr>child_packageLocation = packageLocation, child_name = name,
                 child_logicalPath = logicalPath @ [name],
                 child_optional = (name \<in> set (optionalsOf packageDescriptor))\<rparr>)
           (sort (object_keys
                    (allDependenciesOf commonDependencyDescriptors packageDescriptor dev)))"
    "bs_awaited st' = bs_awaited st @ [(packageLocation, awaiter)]"
    by (auto simp: graphPackage_begin_def Let_def)
  with packageNode_path [OF node] show thesis by (rule that)
qed

text \<open>The two cases of a call of \<open>gatherDependency\<close> that returns.\<close>

lemma gatherDependency_Inr:
  assumes "gatherDependency graphPackageFn I readDescriptorFn canonical dependencyLocations
             packageLocation name conditions languageOptions strict childLogicalPath optional
             commonDependencyDescriptors st = Some (Inr (dependencyLocations', st'))"
  obtains
    (missing)
      "findPackage readDescriptorFn canonical packageLocation name = Inr None"
      "dependencyLocations' = dependencyLocations" "st' = st"
  | (found) dependency st1 where
      "findPackage readDescriptorFn canonical packageLocation name = Inr (Some dependency)"
      "dependencyLocations'
       = AList.update name (href (fst dependency)) dependencyLocations"
      "bs_graph st1 = bs_graph st" "bs_children st1 = bs_children st"
      "bs_awaited st1 = bs_awaited st"
      "graphPackageFn name readDescriptorFn canonical dependency conditions False
         commonDependencyDescriptors languageOptions strict childLogicalPath st1
       = Some (Inr st')"
proof (cases "findPackage readDescriptorFn canonical packageLocation name")
  case (Inl e)
  with assms show thesis by (simp add: gatherDependency_def)
next
  case (Inr search)
  show thesis
  proof (cases search)
    case None
    with Inr assms have "dependencyLocations' = dependencyLocations" "st' = st"
      by (auto simp: gatherDependency_def split: if_splits)
    with Inr None show thesis by (intro missing) simp_all
  next
    case (Some dependency)
    let ?st1 =
      "if pathCompare I childLogicalPath
            (map_of (bs_preferredPackageLogicalPathMap st) (href (fst dependency))) < 0
       then st\<lparr>bs_preferredPackageLogicalPathMap :=
                 AList.update (href (fst dependency)) childLogicalPath
                   (bs_preferredPackageLogicalPathMap st)\<rparr>
       else st"
    from Inr Some assms have
      "dependencyLocations'
       = AList.update name (href (fst dependency)) dependencyLocations"
      "graphPackageFn name readDescriptorFn canonical dependency conditions False
         commonDependencyDescriptors languageOptions strict childLogicalPath ?st1
       = Some (Inr st')"
      by (auto simp: gatherDependency_def Let_def split: option.splits sum.splits)
    moreover have "bs_graph ?st1 = bs_graph st" "bs_children ?st1 = bs_children st"
      "bs_awaited ?st1 = bs_awaited st"
      by simp_all
    ultimately show thesis using Inr Some by (intro found [of dependency ?st1]) simp_all
  qed
qed

text \<open>
  The three cases of a completion after which the run goes on: the dependency is
  not installed, it is in the graph, or it is registered.
\<close>

lemma resumeChild_cases:
  assumes step:
    "resumeChild I readDescriptorFn canonical conditions commonDependencyDescriptors
       languageOptions strict completion st = Some (Inr st')"
    and index: "index = completion mod length (bs_children st)"
    and child: "child = bs_children st ! index"
    and rest: "rest = take index (bs_children st) @ drop (Suc index) (bs_children st)"
  obtains
    (missing) dependencyLocations where
      "findPackage readDescriptorFn canonical (child_packageLocation child)
         (child_name child) = Inr None"
      "bs_graph st'
       = AList.map_entry (href (child_packageLocation child))
           (\<lambda>result. result\<lparr>node_dependencyLocations := dependencyLocations\<rparr>)
           (bs_graph st)"
      "bs_children st' = rest" "bs_awaited st' = bs_awaited st"
  | (present) dependencyLocation dependencyDescriptor dependencyLocations where
      "findPackage readDescriptorFn canonical (child_packageLocation child)
         (child_name child) = Inr (Some (dependencyLocation, dependencyDescriptor))"
      "map_of (bs_graph st) (href dependencyLocation) \<noteq> None"
      "bs_graph st'
       = AList.map_entry (href (child_packageLocation child))
           (\<lambda>result. result\<lparr>node_dependencyLocations := dependencyLocations\<rparr>)
           (bs_graph st)"
      "bs_children st' = rest" "bs_awaited st' = bs_awaited st"
  | (registered) dependencyLocation dependencyDescriptor dependencyLocations result where
      "findPackage readDescriptorFn canonical (child_packageLocation child)
         (child_name child) = Inr (Some (dependencyLocation, dependencyDescriptor))"
      "map_of (bs_graph st) (href dependencyLocation) = None"
      "node_path result = child_logicalPath child"
      "bs_graph st'
       = AList.map_entry (href (child_packageLocation child))
           (\<lambda>result. result\<lparr>node_dependencyLocations := dependencyLocations\<rparr>)
           (AList.update (href dependencyLocation) result (bs_graph st))"
      "bs_children st'
       = rest
         @ map (\<lambda>name.
                  \<lparr>child_packageLocation = dependencyLocation, child_name = name,
                   child_logicalPath = child_logicalPath child @ [name],
                   child_optional = (name \<in> set (optionalsOf dependencyDescriptor))\<rparr>)
             (sort (object_keys
                      (allDependenciesOf commonDependencyDescriptors dependencyDescriptor
                         False)))"
      "bs_awaited st'
       = bs_awaited st @ [(dependencyLocation, Some (href (child_packageLocation child)))]"
proof -
  let ?packageLocation = "child_packageLocation child"
  let ?given =
    "case map_of (bs_graph st) (href ?packageLocation) of
       None \<Rightarrow> []
     | Some result \<Rightarrow> node_dependencyLocations result"
  let ?st1 = "st\<lparr>bs_children := rest\<rparr>"
  from step index child rest obtain dependencyLocations1 st2 where
    gathered:
      "gatherDependency (graphPackage_begin (Some (href ?packageLocation)) I) I
         readDescriptorFn canonical ?given ?packageLocation (child_name child) conditions
         languageOptions strict (child_logicalPath child) (child_optional child)
         commonDependencyDescriptors ?st1 = Some (Inr (dependencyLocations1, st2))"
    and st': "st' = st2\<lparr>bs_graph :=
                          AList.map_entry (href ?packageLocation)
                            (\<lambda>result. result\<lparr>node_dependencyLocations :=
                                               dependencyLocations1\<rparr>)
                            (bs_graph st2)\<rparr>"
    by (auto simp: resumeChild_def Let_def split: option.splits sum.splits)
  from gathered show thesis
  proof (cases rule: gatherDependency_Inr)
    case missing
    with st' show thesis
      by (intro that(1) [of dependencyLocations1]) simp_all
  next
    case (found dependency st1)
    obtain dependencyLocation dependencyDescriptor
      where dependency: "dependency = (dependencyLocation, dependencyDescriptor)"
      by (cases dependency)
    show thesis
    proof (cases "map_of (bs_graph st) (href dependencyLocation) = None")
      case False
      with found dependency have "st2 = st1"
        by (simp add: graphPackage_begin_registered)
      with found dependency False st' show thesis
        by (intro that(2) [of dependencyLocation dependencyDescriptor dependencyLocations1])
           simp_all
    next
      case True
      with found dependency have fresh: "map_of (bs_graph st1) (href dependencyLocation) = None"
        by simp
      from found(6) [unfolded dependency] fresh
      obtain result where
        "node_path result = child_logicalPath child"
        "bs_graph st2 = AList.update (href dependencyLocation) result (bs_graph st1)"
        "bs_children st2
         = bs_children st1
           @ map (\<lambda>name.
                    \<lparr>child_packageLocation = dependencyLocation, child_name = name,
                     child_logicalPath = child_logicalPath child @ [name],
                     child_optional = (name \<in> set (optionalsOf dependencyDescriptor))\<rparr>)
               (sort (object_keys
                        (allDependenciesOf commonDependencyDescriptors dependencyDescriptor
                           False)))"
        "bs_awaited st2
         = bs_awaited st1 @ [(dependencyLocation, Some (href ?packageLocation))]"
        by (rule graphPackage_begin_registers)
      with found dependency True st' show thesis
        by (intro that(3) [of dependencyLocation dependencyDescriptor result
                              dependencyLocations1])
           simp_all
    qed
  qed
qed

lemma gatherDependency_returns:
  assumes "\<And>dependency st1.
             graphPackageFn name readDescriptorFn canonical dependency conditions False
               commonDependencyDescriptors languageOptions strict childLogicalPath st1
             \<noteq> None"
  shows "gatherDependency graphPackageFn I readDescriptorFn canonical dependencyLocations
           packageLocation name conditions languageOptions strict childLogicalPath optional
           commonDependencyDescriptors st \<noteq> None"
proof (cases "findPackage readDescriptorFn canonical packageLocation name")
  case (Inl e)
  then show ?thesis by (simp add: gatherDependency_def)
next
  case (Inr search)
  show ?thesis
  proof (cases search)
    case None
    with Inr show ?thesis by (simp add: gatherDependency_def)
  next
    case (Some dependency)
    let ?st1 =
      "if pathCompare I childLogicalPath
            (map_of (bs_preferredPackageLogicalPathMap st) (href (fst dependency))) < 0
       then st\<lparr>bs_preferredPackageLogicalPathMap :=
                 AList.update (href (fst dependency)) childLogicalPath
                   (bs_preferredPackageLogicalPathMap st)\<rparr>
       else st"
    from assms [of dependency ?st1] obtain result where
      "graphPackageFn name readDescriptorFn canonical dependency conditions False
         commonDependencyDescriptors languageOptions strict childLogicalPath ?st1
       = Some result"
      by blast
    with Inr Some show ?thesis
      by (cases result) (simp_all add: gatherDependency_def Let_def)
  qed
qed

lemma resumeChild_returns:
  "resumeChild I readDescriptorFn canonical conditions commonDependencyDescriptors
     languageOptions strict completion st \<noteq> None"
proof -
  have "gatherDependency (graphPackage_begin awaiter I) I readDescriptorFn canonical
          dependencyLocations packageLocation name conditions languageOptions strict
          childLogicalPath optional commonDependencyDescriptors st1 \<noteq> None"
    for awaiter dependencyLocations packageLocation name childLogicalPath optional st1
    by (rule gatherDependency_returns) (rule graphPackage_begin_returns)
  then show ?thesis
    unfolding resumeChild_def Let_def
    by (simp split: option.split sum.split prod.split)
qed

text \<open>What a call of \<open>graphPackage_end\<close> that returns leaves.\<close>

lemma graphPackage_end_Inr:
  assumes "graphPackage_end commonDependencyDescriptors packageLocation st = Inr st'"
  shows "bs_children st' = bs_children st"
    and "bs_awaited st'
         = filter (\<lambda>(location, awaiter). href location \<noteq> href packageLocation)
             (bs_awaited st)"
    and "graphKeys (bs_graph st') = graphKeys (bs_graph st)"
    and "nodeRank (bs_graph st') k = nodeRank (bs_graph st) k"
    and "distinct (map fst (bs_graph st)) \<Longrightarrow> distinct (map fst (bs_graph st'))"
proof -
  show "bs_children st' = bs_children st"
    using assms
    by (auto simp: graphPackage_end_def Let_def split: option.splits sum.splits)
  show "bs_awaited st'
        = filter (\<lambda>(location, awaiter). href location \<noteq> href packageLocation)
            (bs_awaited st)"
    using assms by (rule graphPackage_end_awaited)
  consider (same) "bs_graph st' = bs_graph st"
    | (updated) result dependencyLocations where
        "map_of (bs_graph st) (href packageLocation) = Some result"
        "bs_graph st'
         = AList.update (href packageLocation)
             (result\<lparr>node_dependencyLocations := dependencyLocations\<rparr>) (bs_graph st)"
    using assms
    by (auto simp: graphPackage_end_def Let_def split: option.splits sum.splits)
  then have "graphKeys (bs_graph st') = graphKeys (bs_graph st)
             \<and> nodeRank (bs_graph st') k = nodeRank (bs_graph st) k
             \<and> (distinct (map fst (bs_graph st)) \<longrightarrow> distinct (map fst (bs_graph st')))"
  proof cases
    case same
    then show ?thesis by simp
  next
    case updated
    then have "href packageLocation \<in> graphKeys (bs_graph st)"
      by (simp add: graphKeys_map_of)
    with updated show ?thesis
      by (auto simp: graphKeys_update nodeRank_update_same_path distinct_update)
  qed
  then show "graphKeys (bs_graph st') = graphKeys (bs_graph st)"
    and "nodeRank (bs_graph st') k = nodeRank (bs_graph st) k"
    and "distinct (map fst (bs_graph st)) \<Longrightarrow> distinct (map fst (bs_graph st'))"
    by simp_all
qed

text \<open>The invariant of the builder, taken apart and put together.\<close>

lemma builderInvariantD:
  assumes "builderInvariant readDescriptorFn canonical commonDependencyDescriptors entry st"
  shows "distinct (map fst (bs_graph st))"
    and "href (fst entry) \<in> graphKeys (bs_graph st)"
    and "graphKeys (bs_graph st)
         \<subseteq> href ` fst ` reachablePackages readDescriptorFn canonical
                           commonDependencyDescriptors entry"
    and "\<And>child. child \<in> set (bs_children st) \<Longrightarrow>
           \<exists>packageDescriptor dev.
             (child_packageLocation child, packageDescriptor, dev)
               \<in> reachablePackages readDescriptorFn canonical commonDependencyDescriptors
                   entry
             \<and> child_name child
                 \<in> set (object_keys
                          (allDependenciesOf commonDependencyDescriptors packageDescriptor
                             dev))"
    and "\<And>child. child \<in> set (bs_children st) \<Longrightarrow>
           href (child_packageLocation child) \<in> href ` fst ` set (bs_awaited st)"
    and "\<And>child. child \<in> set (bs_children st) \<Longrightarrow>
           nodeRank (bs_graph st) (href (child_packageLocation child))
           < length (child_logicalPath child)"
    and "\<And>location awaiter. (location, awaiter) \<in> set (bs_awaited st) \<Longrightarrow>
           href location \<in> graphKeys (bs_graph st)"
    and "\<And>location parent. (location, Some parent) \<in> set (bs_awaited st) \<Longrightarrow>
           parent \<in> graphKeys (bs_graph st)
           \<and> nodeRank (bs_graph st) parent < nodeRank (bs_graph st) (href location)"
  using assms unfolding builderInvariant_def by blast+

lemma builderInvariantI:
  assumes "distinct (map fst (bs_graph st))"
    and "href (fst entry) \<in> graphKeys (bs_graph st)"
    and "graphKeys (bs_graph st)
         \<subseteq> href ` fst ` reachablePackages readDescriptorFn canonical
                           commonDependencyDescriptors entry"
    and "\<And>child. child \<in> set (bs_children st) \<Longrightarrow>
           \<exists>packageDescriptor dev.
             (child_packageLocation child, packageDescriptor, dev)
               \<in> reachablePackages readDescriptorFn canonical commonDependencyDescriptors
                   entry
             \<and> child_name child
                 \<in> set (object_keys
                          (allDependenciesOf commonDependencyDescriptors packageDescriptor
                             dev))"
    and "\<And>child. child \<in> set (bs_children st) \<Longrightarrow>
           href (child_packageLocation child) \<in> href ` fst ` set (bs_awaited st)"
    and "\<And>child. child \<in> set (bs_children st) \<Longrightarrow>
           nodeRank (bs_graph st) (href (child_packageLocation child))
           < length (child_logicalPath child)"
    and "\<And>location awaiter. (location, awaiter) \<in> set (bs_awaited st) \<Longrightarrow>
           href location \<in> graphKeys (bs_graph st)"
    and "\<And>location parent. (location, Some parent) \<in> set (bs_awaited st) \<Longrightarrow>
           parent \<in> graphKeys (bs_graph st)
           \<and> nodeRank (bs_graph st) parent < nodeRank (bs_graph st) (href location)"
  shows "builderInvariant readDescriptorFn canonical commonDependencyDescriptors entry st"
  unfolding builderInvariant_def
proof (intro conjI ballI)
  fix entry' assume "entry' \<in> set (bs_awaited st)"
  with assms(7,8)
  show "case entry' of
          (location, awaiter) \<Rightarrow>
            href location \<in> graphKeys (bs_graph st)
            \<and> (\<forall>parent. awaiter = Some parent \<longrightarrow>
                   parent \<in> graphKeys (bs_graph st)
                   \<and> nodeRank (bs_graph st) parent
                       < nodeRank (bs_graph st) (href location))"
    by (cases entry') auto
qed (use assms in blast)+

text \<open>The child whose search completes, and the others.\<close>

lemma pending_child:
  assumes "children \<noteq> []" and "index = completion mod length children"
  shows "children ! index \<in> set children"
    and "set (take index children @ drop (Suc index) children) \<subseteq> set children"
    and "set children
         \<subseteq> insert (children ! index)
             (set (take index children @ drop (Suc index) children))"
proof -
  from assms have less: "index < length children" by simp
  then show "children ! index \<in> set children" by simp
  show "set (take index children @ drop (Suc index) children) \<subseteq> set children"
    by (auto dest: in_set_takeD in_set_dropD)
  from less have "children = take index children @ children ! index # drop (Suc index) children"
    by (rule id_take_nth_drop)
  then have "set children
             = set (take index children @ children ! index # drop (Suc index) children)"
    by simp
  then show "set children
         \<subseteq> insert (children ! index)
             (set (take index children @ drop (Suc index) children))"
    by auto
qed

text \<open>A completion keeps the invariant of the builder.\<close>

lemma builderInvariant_table:
  assumes inv: "builderInvariant readDescriptorFn canonical commonDependencyDescriptors entry st"
    and graph:
      "bs_graph st'
       = AList.map_entry k
           (\<lambda>result. result\<lparr>node_dependencyLocations := dependencyLocations\<rparr>)
           (bs_graph st)"
    and children: "set (bs_children st') \<subseteq> set (bs_children st)"
    and awaited: "bs_awaited st' = bs_awaited st"
  shows "builderInvariant readDescriptorFn canonical commonDependencyDescriptors entry st'"
proof -
  note parts = builderInvariantD [OF inv]
  have keys: "graphKeys (bs_graph st') = graphKeys (bs_graph st)"
    by (simp add: graph graphKeys_map_entry)
  have rank: "nodeRank (bs_graph st') k' = nodeRank (bs_graph st) k'" for k'
    unfolding graph by (rule nodeRank_map_entry) simp
  show ?thesis
  proof (rule builderInvariantI)
    show "distinct (map fst (bs_graph st'))"
      using parts(1) by (simp add: graph distinct_map_entry)
    show "href (fst entry) \<in> graphKeys (bs_graph st')"
      using parts(2) by (simp add: keys)
    show "graphKeys (bs_graph st')
          \<subseteq> href ` fst ` reachablePackages readDescriptorFn canonical
                            commonDependencyDescriptors entry"
      using parts(3) by (simp add: keys)
  next
    fix child assume "child \<in> set (bs_children st')"
    with children have child: "child \<in> set (bs_children st)" by blast
    from parts(4) [OF child]
    show "\<exists>packageDescriptor dev.
            (child_packageLocation child, packageDescriptor, dev)
              \<in> reachablePackages readDescriptorFn canonical commonDependencyDescriptors
                  entry
            \<and> child_name child
                \<in> set (object_keys
                         (allDependenciesOf commonDependencyDescriptors packageDescriptor
                            dev))" .
    from parts(5) [OF child]
    show "href (child_packageLocation child) \<in> href ` fst ` set (bs_awaited st')"
      by (simp add: awaited)
    from parts(6) [OF child]
    show "nodeRank (bs_graph st') (href (child_packageLocation child))
          < length (child_logicalPath child)"
      by (simp add: rank)
  next
    fix location awaiter assume "(location, awaiter) \<in> set (bs_awaited st')"
    then have "(location, awaiter) \<in> set (bs_awaited st)" by (simp add: awaited)
    from parts(7) [OF this] show "href location \<in> graphKeys (bs_graph st')"
      by (simp add: keys)
  next
    fix location parent assume "(location, Some parent) \<in> set (bs_awaited st')"
    then have "(location, Some parent) \<in> set (bs_awaited st)" by (simp add: awaited)
    from parts(8) [OF this]
    show "parent \<in> graphKeys (bs_graph st')
          \<and> nodeRank (bs_graph st') parent < nodeRank (bs_graph st') (href location)"
      by (simp add: keys rank)
  qed
qed

lemma resumeChild_invariant:
  assumes inv: "builderInvariant readDescriptorFn canonical commonDependencyDescriptors entry st"
    and pending: "bs_children st \<noteq> []"
    and step:
      "resumeChild I readDescriptorFn canonical conditions commonDependencyDescriptors
         languageOptions strict completion st = Some (Inr st')"
  shows "builderInvariant readDescriptorFn canonical commonDependencyDescriptors entry st'"
proof -
  define index where "index = completion mod length (bs_children st)"
  define child where "child = bs_children st ! index"
  define rest where "rest = take index (bs_children st) @ drop (Suc index) (bs_children st)"
  note parts = builderInvariantD [OF inv]
  from pending_child [OF pending index_def]
  have child: "child \<in> set (bs_children st)" and rest: "set rest \<subseteq> set (bs_children st)"
    by (simp_all add: child_def rest_def)
  let ?parent = "child_packageLocation child"
  from parts(4) [OF child] obtain parentDescriptor dev where
    reachable: "(?parent, parentDescriptor, dev)
                  \<in> reachablePackages readDescriptorFn canonical commonDependencyDescriptors
                      entry"
    and name: "child_name child
               \<in> set (object_keys
                        (allDependenciesOf commonDependencyDescriptors parentDescriptor dev))"
    by blast
  from parts(5) [OF child] parts(7) have parent: "href ?parent \<in> graphKeys (bs_graph st)"
    by auto
  note rank = parts(6) [OF child]
  from step index_def child_def rest_def show ?thesis
  proof (cases rule: resumeChild_cases)
    case (missing dependencyLocations)
    with inv rest show ?thesis
      by (intro builderInvariant_table [OF inv missing(2)]) simp_all
  next
    case (present dependencyLocation dependencyDescriptor dependencyLocations)
    with inv rest show ?thesis
      by (intro builderInvariant_table [OF inv present(3)]) simp_all
  next
    case (registered dependencyLocation dependencyDescriptor dependencyLocations result)
    let ?key = "href dependencyLocation"
    from registered(2) have fresh: "?key \<notin> graphKeys (bs_graph st)"
      by (simp add: graphKeys_map_of)
    have keys: "graphKeys (bs_graph st') = insert ?key (graphKeys (bs_graph st))"
      by (simp add: registered(4) graphKeys_map_entry graphKeys_update)
    have rank': "nodeRank (bs_graph st') k
                 = (if k = ?key then length (child_logicalPath child)
                    else nodeRank (bs_graph st) k)" for k
    proof -
      have "nodeRank (bs_graph st') k
            = nodeRank (AList.update ?key result (bs_graph st)) k"
        unfolding registered(4) by (rule nodeRank_map_entry) simp
      then show ?thesis by (simp add: nodeRank_update registered(3))
    qed
    have dependency:
      "(dependencyLocation, dependencyDescriptor, False)
         \<in> reachablePackages readDescriptorFn canonical commonDependencyDescriptors entry"
      using reachable name registered(1) by (rule reachablePackages.dependency)
    show ?thesis
    proof (rule builderInvariantI)
      show "distinct (map fst (bs_graph st'))"
        using parts(1) by (simp add: registered(4) distinct_map_entry distinct_update)
      show "href (fst entry) \<in> graphKeys (bs_graph st')"
        using parts(2) by (simp add: keys)
      show "graphKeys (bs_graph st')
            \<subseteq> href ` fst ` reachablePackages readDescriptorFn canonical
                              commonDependencyDescriptors entry"
        using parts(3) dependency by (force simp: keys)
    next
      fix c assume "c \<in> set (bs_children st')"
      then consider (old) "c \<in> set rest"
        | (new) name' where
            "name' \<in> set (object_keys
                            (allDependenciesOf commonDependencyDescriptors
                               dependencyDescriptor False))"
            "child_packageLocation c = dependencyLocation" "child_name c = name'"
            "child_logicalPath c = child_logicalPath child @ [name']"
        by (auto simp: registered(5))
      then have
        "(\<exists>packageDescriptor dev.
            (child_packageLocation c, packageDescriptor, dev)
              \<in> reachablePackages readDescriptorFn canonical commonDependencyDescriptors
                  entry
            \<and> child_name c
                \<in> set (object_keys
                         (allDependenciesOf commonDependencyDescriptors packageDescriptor
                            dev)))
         \<and> href (child_packageLocation c) \<in> href ` fst ` set (bs_awaited st')
         \<and> nodeRank (bs_graph st') (href (child_packageLocation c))
             < length (child_logicalPath c)"
      proof cases
        case old
        with rest have c: "c \<in> set (bs_children st)" by blast
        from parts(5) [OF c] parts(7)
        have "href (child_packageLocation c) \<in> graphKeys (bs_graph st)" by auto
        with fresh have "href (child_packageLocation c) \<noteq> ?key" by auto
        with parts(4) [OF c] parts(5) [OF c] parts(6) [OF c] show ?thesis
          by (simp add: rank' registered(6))
      next
        case new
        with dependency show ?thesis
          by (auto simp: rank' registered(6))
      qed
      then show
        "\<exists>packageDescriptor dev.
            (child_packageLocation c, packageDescriptor, dev)
              \<in> reachablePackages readDescriptorFn canonical commonDependencyDescriptors
                  entry
            \<and> child_name c
                \<in> set (object_keys
                         (allDependenciesOf commonDependencyDescriptors packageDescriptor
                            dev))"
        and "href (child_packageLocation c) \<in> href ` fst ` set (bs_awaited st')"
        and "nodeRank (bs_graph st') (href (child_packageLocation c))
             < length (child_logicalPath c)"
        by blast+
    next
      fix location awaiter assume "(location, awaiter) \<in> set (bs_awaited st')"
      then have "(location, awaiter) \<in> set (bs_awaited st) \<or> location = dependencyLocation"
        by (auto simp: registered(6))
      with parts(7) show "href location \<in> graphKeys (bs_graph st')"
        by (auto simp: keys)
    next
      fix location k assume "(location, Some k) \<in> set (bs_awaited st')"
      then consider (old) "(location, Some k) \<in> set (bs_awaited st)"
        | (new) "location = dependencyLocation" "k = href ?parent"
        by (auto simp: registered(6))
      then show "k \<in> graphKeys (bs_graph st')
                 \<and> nodeRank (bs_graph st') k < nodeRank (bs_graph st') (href location)"
      proof cases
        case old
        from parts(8) [OF old] parts(7) [OF old] fresh
        have "k \<noteq> ?key" "href location \<noteq> ?key" by auto
        with parts(8) [OF old] show ?thesis by (simp add: keys rank')
      next
        case new
        from parent fresh have "href ?parent \<noteq> ?key" by auto
        with new parent rank show ?thesis by (simp add: keys rank')
      qed
    qed
  qed
qed

text \<open>The return of a call whose children have settled keeps the invariant.\<close>

lemma graphPackage_end_invariant:
  assumes inv: "builderInvariant readDescriptorFn canonical commonDependencyDescriptors entry st"
    and settled: "childrenSettled packageLocation st"
    and ended: "graphPackage_end descriptors packageLocation st = Inr st'"
  shows "builderInvariant readDescriptorFn canonical commonDependencyDescriptors entry st'"
proof -
  note parts = builderInvariantD [OF inv]
  note after = graphPackage_end_Inr [OF ended]
  have awaited: "set (bs_awaited st') \<subseteq> set (bs_awaited st)"
    by (auto simp: after(2))
  show ?thesis
  proof (rule builderInvariantI)
    show "distinct (map fst (bs_graph st'))"
      using parts(1) by (rule after(5))
    show "href (fst entry) \<in> graphKeys (bs_graph st')"
      using parts(2) by (simp add: after(3))
    show "graphKeys (bs_graph st')
          \<subseteq> href ` fst ` reachablePackages readDescriptorFn canonical
                            commonDependencyDescriptors entry"
      using parts(3) by (simp add: after(3))
  next
    fix child assume "child \<in> set (bs_children st')"
    then have child: "child \<in> set (bs_children st)" by (simp add: after(1))
    from parts(4) [OF child]
    show "\<exists>packageDescriptor dev.
            (child_packageLocation child, packageDescriptor, dev)
              \<in> reachablePackages readDescriptorFn canonical commonDependencyDescriptors
                  entry
            \<and> child_name child
                \<in> set (object_keys
                         (allDependenciesOf commonDependencyDescriptors packageDescriptor
                            dev))" .
    from settled child
    have "href (child_packageLocation child) \<noteq> href packageLocation"
      by (auto simp: childrenSettled_def list_all_iff)
    with parts(5) [OF child]
    show "href (child_packageLocation child) \<in> href ` fst ` set (bs_awaited st')"
      by (force simp: after(2))
    from parts(6) [OF child]
    show "nodeRank (bs_graph st') (href (child_packageLocation child))
          < length (child_logicalPath child)"
      by (simp add: after(4))
  next
    fix location awaiter assume "(location, awaiter) \<in> set (bs_awaited st')"
    with awaited have "(location, awaiter) \<in> set (bs_awaited st)" by blast
    from parts(7) [OF this] show "href location \<in> graphKeys (bs_graph st')"
      by (simp add: after(3))
  next
    fix location parent assume "(location, Some parent) \<in> set (bs_awaited st')"
    with awaited have "(location, Some parent) \<in> set (bs_awaited st)" by blast
    from parts(8) [OF this]
    show "parent \<in> graphKeys (bs_graph st')
          \<and> nodeRank (bs_graph st') parent < nodeRank (bs_graph st') (href location)"
      by (simp add: after(3,4))
  qed
qed

text \<open>
  When the calls that can return have returned, none of those left can; the
  pending searches and the keys of the graph are as before.
\<close>

lemma graphPackage_ends_invariant:
  assumes "graphPackage_ends descriptors st = Inr st'"
    and "builderInvariant readDescriptorFn canonical commonDependencyDescriptors entry st"
  shows "builderInvariant readDescriptorFn canonical commonDependencyDescriptors entry st'
         \<and> noneCanReturn st'
         \<and> bs_children st' = bs_children st
         \<and> graphKeys (bs_graph st') = graphKeys (bs_graph st)"
  using assms
proof (induction descriptors st rule: graphPackage_ends.induct)
  case (1 descriptors st)
  let ?found =
    "find (\<lambda>(packageLocation, awaiter). childrenSettled packageLocation st) (bs_awaited st)"
  show ?case
  proof (cases ?found)
    case None
    with "1.prems"(1) have same: "st' = st"
      by (subst (asm) graphPackage_ends.simps) simp
    from None have "noneCanReturn st"
      by (auto simp: noneCanReturn_def find_None_iff)
    with same "1.prems"(2) show ?thesis by simp
  next
    case (Some found)
    obtain packageLocation awaiter where found: "found = (packageLocation, awaiter)"
      by (cases found)
    from Some found have settled: "childrenSettled packageLocation st"
      by (auto simp: find_Some_iff)
    from "1.prems"(1) Some found obtain st1 where
      ended: "graphPackage_end descriptors packageLocation st = Inr st1"
      and rest: "graphPackage_ends descriptors st1 = Inr st'"
      by (subst (asm) graphPackage_ends.simps) (auto split: sum.splits)
    from "1.prems"(2) settled ended
    have inv1: "builderInvariant readDescriptorFn canonical commonDependencyDescriptors entry
                  st1"
      by (rule graphPackage_end_invariant)
    from "1.IH" [OF Some found [symmetric] ended rest inv1]
      graphPackage_end_Inr(1,3) [OF ended]
    show ?thesis by simp
  qed
qed

text \<open>
  As long as a call has not returned and none can, a search is pending: the call
  with the longest logical path among those that have not returned is awaited by no
  other, so that it waits for a search.
\<close>

lemma search_pending:
  assumes inv: "builderInvariant readDescriptorFn canonical commonDependencyDescriptors entry st"
    and stuck: "noneCanReturn st"
    and awaited: "bs_awaited st \<noteq> []"
  shows "bs_children st \<noteq> []"
proof
  assume none: "bs_children st = []"
  let ?rank = "\<lambda>entry. nodeRank (bs_graph st) (href (fst entry))"
  let ?ranks = "?rank ` set (bs_awaited st)"
  from awaited have "finite ?ranks" "?ranks \<noteq> {}" by simp_all
  then have "Max ?ranks \<in> ?ranks" by (rule Max_in)
  then obtain location awaiter where
    last: "(location, awaiter) \<in> set (bs_awaited st)"
    and rank: "nodeRank (bs_graph st) (href location) = Max ?ranks"
    by auto
  from stuck last have "\<not> childrenSettled location st"
    by (auto simp: noneCanReturn_def)
  with none obtain location' where
    child: "(location', Some (href location)) \<in> set (bs_awaited st)"
    by (auto simp: childrenSettled_def list_all_iff)
  from builderInvariantD(8) [OF inv child]
  have "nodeRank (bs_graph st) (href location) < nodeRank (bs_graph st) (href location')"
    by simp
  moreover from child have "?rank (location', Some (href location)) \<in> ?ranks"
    by (rule imageI)
  then have "?rank (location', Some (href location)) \<le> Max ?ranks"
    by (intro Max_ge) simp_all
  ultimately show False using rank by simp
qed

text \<open>
  A package that can be reached is the entry package or an installed one, its
  descriptor is the one at its location, and its development dependencies count
  only if it is the entry.
\<close>

lemma reachablePackages_installed:
  assumes "(packageLocation, packageDescriptor, dev)
             \<in> reachablePackages readDescriptorFn canonical commonDependencyDescriptors
                 entry"
    and "readDescriptorFn (fst entry) = Inr (Some (fst (snd entry)))"
  shows "packageLocation \<in> insert (fst entry) (installedPackages readDescriptorFn canonical)
         \<and> readDescriptorFn packageLocation = Inr (Some packageDescriptor)
         \<and> (dev = False \<or> (packageLocation, packageDescriptor, dev) = entry)"
  using assms
proof (induction "(packageLocation, packageDescriptor, dev)"
    arbitrary: packageLocation packageDescriptor dev rule: reachablePackages.induct)
  case entry
  then show ?case by (cases entry) auto
next
  case (dependency packageLocation packageDescriptor dev name dependencyLocation
      dependencyDescriptor)
  from findPackage_found [OF dependency(4)] show ?case by simp
qed

lemma dependenciesExploredD:
  assumes "dependenciesExplored readDescriptorFn canonical commonDependencyDescriptors entry
             st"
    and "(packageLocation, packageDescriptor, dev)
           \<in> reachablePackages readDescriptorFn canonical commonDependencyDescriptors entry"
    and "href packageLocation \<in> graphKeys (bs_graph st)"
    and "name \<in> set (object_keys
                       (allDependenciesOf commonDependencyDescriptors packageDescriptor
                          dev))"
  shows "(\<exists>child \<in> set (bs_children st).
            child_packageLocation child = packageLocation \<and> child_name child = name)
         \<or> (\<forall>dependencyLocation dependencyDescriptor.
               findPackage readDescriptorFn canonical packageLocation name
               = Inr (Some (dependencyLocation, dependencyDescriptor)) \<longrightarrow>
               href dependencyLocation \<in> graphKeys (bs_graph st))"
  using assms unfolding dependenciesExplored_def by fast

lemma dependenciesExploredI:
  assumes "\<And>packageLocation packageDescriptor dev name.
             (packageLocation, packageDescriptor, dev)
               \<in> reachablePackages readDescriptorFn canonical commonDependencyDescriptors
                   entry \<Longrightarrow>
             href packageLocation \<in> graphKeys (bs_graph st) \<Longrightarrow>
             name \<in> set (object_keys
                           (allDependenciesOf commonDependencyDescriptors packageDescriptor
                              dev)) \<Longrightarrow>
             (\<exists>child \<in> set (bs_children st).
                child_packageLocation child = packageLocation \<and> child_name child = name)
             \<or> (\<forall>dependencyLocation dependencyDescriptor.
                   findPackage readDescriptorFn canonical packageLocation name
                   = Inr (Some (dependencyLocation, dependencyDescriptor)) \<longrightarrow>
                   href dependencyLocation \<in> graphKeys (bs_graph st))"
  shows "dependenciesExplored readDescriptorFn canonical commonDependencyDescriptors entry st"
  unfolding dependenciesExplored_def using assms by fast

text \<open>
  A completion keeps every dependency of a registered package explored, when
  locations are told apart by their URLs and the descriptor of the entry package is
  the one at its location.
\<close>

lemma resumeChild_explored:
  assumes inv: "builderInvariant readDescriptorFn canonical commonDependencyDescriptors entry st"
    and explored:
      "dependenciesExplored readDescriptorFn canonical commonDependencyDescriptors entry st"
    and pending: "bs_children st \<noteq> []"
    and step:
      "resumeChild I readDescriptorFn canonical conditions commonDependencyDescriptors
         languageOptions strict completion st = Some (Inr st')"
    and inj: "inj_on href (insert (fst entry) (installedPackages readDescriptorFn canonical))"
    and read: "readDescriptorFn (fst entry) = Inr (Some (fst (snd entry)))"
  shows "dependenciesExplored readDescriptorFn canonical commonDependencyDescriptors entry st'"
proof -
  define index where "index = completion mod length (bs_children st)"
  define child where "child = bs_children st ! index"
  define rest where "rest = take index (bs_children st) @ drop (Suc index) (bs_children st)"
  from pending_child [OF pending index_def]
  have children: "set (bs_children st) \<subseteq> insert child (set rest)"
    by (simp_all add: child_def rest_def)
  let ?parent = "child_packageLocation child"
  let ?search = "findPackage readDescriptorFn canonical ?parent (child_name child)"
  have after:
    "graphKeys (bs_graph st) \<subseteq> graphKeys (bs_graph st')
     \<and> set rest \<subseteq> set (bs_children st')
     \<and> (\<forall>dependencyLocation dependencyDescriptor.
           ?search = Inr (Some (dependencyLocation, dependencyDescriptor)) \<longrightarrow>
           href dependencyLocation \<in> graphKeys (bs_graph st'))
     \<and> (\<forall>key \<in> graphKeys (bs_graph st') - graphKeys (bs_graph st).
           \<exists>dependencyLocation dependencyDescriptor.
             key = href dependencyLocation
             \<and> ?search = Inr (Some (dependencyLocation, dependencyDescriptor))
             \<and> (\<forall>name \<in> set (object_keys
                                (allDependenciesOf commonDependencyDescriptors
                                   dependencyDescriptor False)).
                    \<exists>c \<in> set (bs_children st').
                      child_packageLocation c = dependencyLocation \<and> child_name c = name))"
    using step index_def child_def rest_def
  proof (cases rule: resumeChild_cases)
    case (missing dependencyLocations)
    then show ?thesis by (simp add: graphKeys_map_entry)
  next
    case (present dependencyLocation dependencyDescriptor dependencyLocations)
    then show ?thesis by (simp add: graphKeys_map_entry graphKeys_map_of)
  next
    case (registered dependencyLocation dependencyDescriptor dependencyLocations result)
    have keys: "graphKeys (bs_graph st') = insert (href dependencyLocation) (graphKeys (bs_graph st))"
      by (simp add: registered(4) graphKeys_map_entry graphKeys_update)
    have "\<exists>c \<in> set (bs_children st').
            child_packageLocation c = dependencyLocation \<and> child_name c = name"
      if "name \<in> set (object_keys
                        (allDependenciesOf commonDependencyDescriptors dependencyDescriptor
                           False))" for name
      using that unfolding registered(5)
      by (intro bexI [where x = "\<lparr>child_packageLocation = dependencyLocation,
                                   child_name = name,
                                   child_logicalPath = child_logicalPath child @ [name],
                                   child_optional =
                                     (name \<in> set (optionalsOf dependencyDescriptor))\<rparr>"])
         auto
    with registered(1) show ?thesis
      by (auto simp: keys registered(5))
  qed
  show ?thesis
  proof (rule dependenciesExploredI)
    fix packageLocation packageDescriptor dev name
    assume reachable:
      "(packageLocation, packageDescriptor, dev)
         \<in> reachablePackages readDescriptorFn canonical commonDependencyDescriptors entry"
      and key: "href packageLocation \<in> graphKeys (bs_graph st')"
      and name: "name \<in> set (object_keys
                               (allDependenciesOf commonDependencyDescriptors
                                  packageDescriptor dev))"
    let ?thesis =
      "(\<exists>c \<in> set (bs_children st').
          child_packageLocation c = packageLocation \<and> child_name c = name)
       \<or> (\<forall>dependencyLocation dependencyDescriptor.
             findPackage readDescriptorFn canonical packageLocation name
             = Inr (Some (dependencyLocation, dependencyDescriptor)) \<longrightarrow>
             href dependencyLocation \<in> graphKeys (bs_graph st'))"
    show ?thesis
    proof (cases "href packageLocation \<in> graphKeys (bs_graph st)")
      case True
      from dependenciesExploredD [OF explored reachable True name]
      show ?thesis
      proof
        assume "\<exists>c \<in> set (bs_children st).
                  child_packageLocation c = packageLocation \<and> child_name c = name"
        then obtain c where c: "c \<in> set (bs_children st)"
          "child_packageLocation c = packageLocation" "child_name c = name"
          by blast
        from c(1) children consider "c = child" | "c \<in> set rest" by blast
        then show ?thesis
        proof cases
          case 1
          with c after show ?thesis by auto
        next
          case 2
          with c after show ?thesis by blast
        qed
      next
        assume "\<forall>dependencyLocation dependencyDescriptor.
                  findPackage readDescriptorFn canonical packageLocation name
                  = Inr (Some (dependencyLocation, dependencyDescriptor)) \<longrightarrow>
                  href dependencyLocation \<in> graphKeys (bs_graph st)"
        with after show ?thesis by blast
      qed
    next
      case False
      with key after obtain dependencyLocation dependencyDescriptor where
        same: "href packageLocation = href dependencyLocation"
        and found: "?search = Inr (Some (dependencyLocation, dependencyDescriptor))"
        and started:
          "\<forall>name \<in> set (object_keys
                          (allDependenciesOf commonDependencyDescriptors
                             dependencyDescriptor False)).
             \<exists>c \<in> set (bs_children st').
               child_packageLocation c = dependencyLocation \<and> child_name c = name"
        by blast
      note installed = reachablePackages_installed [OF reachable read]
      note dependency = findPackage_found [OF found]
      from inj same installed dependency have location: "packageLocation = dependencyLocation"
        by (auto dest: inj_onD)
      with installed dependency have descriptor: "packageDescriptor = dependencyDescriptor"
        by simp
      have "dev = False"
      proof (rule ccontr)
        assume "dev \<noteq> False"
        with installed have "(packageLocation, packageDescriptor, dev) = entry" by blast
        then have "fst entry = packageLocation" by auto
        with builderInvariantD(2) [OF inv] False show False by simp
      qed
      with location descriptor name started show ?thesis by blast
    qed
  qed
qed

text \<open>A completion leaves fewer searches ahead.\<close>

lemma resumeChild_searchesAhead:
  assumes finite: "finite (installedPackages readDescriptorFn canonical)"
    and pending: "bs_children st \<noteq> []"
    and step:
      "resumeChild I readDescriptorFn canonical conditions commonDependencyDescriptors
         languageOptions strict completion st = Some (Inr st')"
  shows "searchesAhead readDescriptorFn canonical commonDependencyDescriptors st'
         < searchesAhead readDescriptorFn canonical commonDependencyDescriptors st"
proof -
  define index where "index = completion mod length (bs_children st)"
  define child where "child = bs_children st ! index"
  define rest where "rest = take index (bs_children st) @ drop (Suc index) (bs_children st)"
  let ?names =
    "\<lambda>location. case readDescriptorFn location of
                   Inr (Some packageDescriptor) \<Rightarrow>
                     length (object_keys
                               (allDependenciesOf commonDependencyDescriptors
                                  packageDescriptor False))
                 | _ \<Rightarrow> 0"
  let ?ahead =
    "\<lambda>st. {location \<in> installedPackages readDescriptorFn canonical.
             href location \<notin> graphKeys (bs_graph st)}"
  from pending have "index < length (bs_children st)" by (simp add: index_def)
  then have rest: "Suc (length rest) = length (bs_children st)"
    by (auto simp: rest_def)
  from step index_def child_def rest_def show ?thesis
  proof (cases rule: resumeChild_cases)
    case (missing dependencyLocations)
    with rest show ?thesis
      by (simp add: searchesAhead_def graphKeys_map_entry)
  next
    case (present dependencyLocation dependencyDescriptor dependencyLocations)
    with rest show ?thesis
      by (simp add: searchesAhead_def graphKeys_map_entry)
  next
    case (registered dependencyLocation dependencyDescriptor dependencyLocations result)
    note dependency = findPackage_found [OF registered(1)]
    have keys: "graphKeys (bs_graph st')
                = insert (href dependencyLocation) (graphKeys (bs_graph st))"
      by (simp add: registered(4) graphKeys_map_entry graphKeys_update)
    from registered(2) dependency have ahead: "dependencyLocation \<in> ?ahead st"
      by (simp add: graphKeys_map_of)
    from finite have fin: "finite (?ahead st)" by simp
    have "?ahead st' \<subseteq> ?ahead st - {dependencyLocation}"
      by (auto simp: keys)
    then have "sum ?names (?ahead st') \<le> sum ?names (?ahead st - {dependencyLocation})"
      using fin by (intro sum_mono2) auto
    moreover from fin ahead
    have "sum ?names (?ahead st)
          = ?names dependencyLocation + sum ?names (?ahead st - {dependencyLocation})"
      by (rule sum.remove)
    moreover from dependency
    have "?names dependencyLocation
          = length (object_keys
                      (allDependenciesOf commonDependencyDescriptors dependencyDescriptor
                         False))"
      by simp
    moreover have "length (bs_children st')
                   = length rest
                     + length (object_keys
                                 (allDependenciesOf commonDependencyDescriptors
                                    dependencyDescriptor False))"
      by (simp add: registered(5))
    ultimately show ?thesis
      using rest unfolding searchesAhead_def by linarith
  qed
qed

text \<open>The wait: what it keeps, that it ends, and that further completions are not used.\<close>

lemma dependenciesExplored_cong:
  assumes "bs_children st' = bs_children st"
    and "graphKeys (bs_graph st') = graphKeys (bs_graph st)"
  shows "dependenciesExplored readDescriptorFn canonical commonDependencyDescriptors entry st'
         = dependenciesExplored readDescriptorFn canonical commonDependencyDescriptors entry
             st"
  using assms by (simp add: dependenciesExplored_def)

lemma searchesAhead_cong:
  assumes "bs_children st' = bs_children st"
    and "graphKeys (bs_graph st') = graphKeys (bs_graph st)"
  shows "searchesAhead readDescriptorFn canonical commonDependencyDescriptors st'
         = searchesAhead readDescriptorFn canonical commonDependencyDescriptors st"
  using assms by (simp add: searchesAhead_def)

lemma awaitGraphPackage_step:
  assumes "bs_awaited st \<noteq> []" and "bs_children st \<noteq> []"
  shows "awaitGraphPackage (completion # completions) I readDescriptorFn canonical conditions
           commonDependencyDescriptors languageOptions strict st
         = (case resumeChild I readDescriptorFn canonical conditions
                   commonDependencyDescriptors languageOptions strict completion st of
              None \<Rightarrow> None
            | Some (Inl e) \<Rightarrow> Some (Inl e)
            | Some (Inr st1) \<Rightarrow>
                (case graphPackage_ends commonDependencyDescriptors st1 of
                   Inl e \<Rightarrow> Some (Inl e)
                 | Inr st2 \<Rightarrow>
                     awaitGraphPackage completions I readDescriptorFn canonical conditions
                       commonDependencyDescriptors languageOptions strict st2))"
  using assms by simp

lemma awaitGraphPackage_returned:
  assumes "bs_awaited st = []"
  shows "awaitGraphPackage completions I readDescriptorFn canonical conditions
           commonDependencyDescriptors languageOptions strict st = Some (Inr st)"
  using assms by (cases completions) simp_all

lemma awaitGraphPackage_more:
  assumes "awaitGraphPackage completions I readDescriptorFn canonical conditions
             commonDependencyDescriptors languageOptions strict st = Some result"
  shows "awaitGraphPackage (completions @ further) I readDescriptorFn canonical conditions
           commonDependencyDescriptors languageOptions strict st = Some result"
  using assms
proof (induction completions arbitrary: st)
  case Nil
  then have "bs_awaited st = []" "result = Inr st"
    by (auto split: if_splits)
  then show ?case by (simp add: awaitGraphPackage_returned)
next
  case (Cons completion completions)
  show ?case
  proof (cases "bs_awaited st = []")
    case True
    with Cons.prems show ?thesis by (simp add: awaitGraphPackage_returned)
  next
    case False
    with Cons.prems have pending: "bs_children st \<noteq> []"
      by (auto split: if_splits)
    from Cons.prems show ?thesis
      unfolding append_Cons awaitGraphPackage_step [OF False pending]
      by (auto split: option.splits sum.splits intro: Cons.IH)
  qed
qed

lemma awaitGraphPackage_invariant:
  assumes "awaitGraphPackage completions I readDescriptorFn canonical conditions
             commonDependencyDescriptors languageOptions strict st = Some (Inr st')"
    and "builderInvariant readDescriptorFn canonical commonDependencyDescriptors entry st"
  shows "builderInvariant readDescriptorFn canonical commonDependencyDescriptors entry st'
         \<and> bs_awaited st' = []"
  using assms
proof (induction completions arbitrary: st)
  case Nil
  then show ?case by (auto split: if_splits)
next
  case (Cons completion completions)
  show ?case
  proof (cases "bs_awaited st = []")
    case True
    with Cons.prems show ?thesis by (simp add: awaitGraphPackage_returned)
  next
    case False
    with Cons.prems(1) have pending: "bs_children st \<noteq> []"
      by (auto split: if_splits)
    from Cons.prems(1) obtain st1 st2 where
      step: "resumeChild I readDescriptorFn canonical conditions commonDependencyDescriptors
               languageOptions strict completion st = Some (Inr st1)"
      and ends: "graphPackage_ends commonDependencyDescriptors st1 = Inr st2"
      and rest: "awaitGraphPackage completions I readDescriptorFn canonical conditions
                   commonDependencyDescriptors languageOptions strict st2 = Some (Inr st')"
      unfolding awaitGraphPackage_step [OF False pending]
      by (auto split: option.splits sum.splits)
    from Cons.prems(2) pending step
    have "builderInvariant readDescriptorFn canonical commonDependencyDescriptors entry st1"
      by (rule resumeChild_invariant)
    with ends
    have "builderInvariant readDescriptorFn canonical commonDependencyDescriptors entry st2"
      by (blast dest: graphPackage_ends_invariant)
    with rest show ?thesis by (rule Cons.IH)
  qed
qed

lemma awaitGraphPackage_explored:
  assumes "awaitGraphPackage completions I readDescriptorFn canonical conditions
             commonDependencyDescriptors languageOptions strict st = Some (Inr st')"
    and "builderInvariant readDescriptorFn canonical commonDependencyDescriptors entry st"
    and "dependenciesExplored readDescriptorFn canonical commonDependencyDescriptors entry st"
    and inj: "inj_on href (insert (fst entry) (installedPackages readDescriptorFn canonical))"
    and read: "readDescriptorFn (fst entry) = Inr (Some (fst (snd entry)))"
  shows "dependenciesExplored readDescriptorFn canonical commonDependencyDescriptors entry st'"
  using assms(1-3)
proof (induction completions arbitrary: st)
  case Nil
  then show ?case by (auto split: if_splits)
next
  case (Cons completion completions)
  show ?case
  proof (cases "bs_awaited st = []")
    case True
    with Cons.prems show ?thesis by (simp add: awaitGraphPackage_returned)
  next
    case False
    with Cons.prems(1) have pending: "bs_children st \<noteq> []"
      by (auto split: if_splits)
    from Cons.prems(1) obtain st1 st2 where
      step: "resumeChild I readDescriptorFn canonical conditions commonDependencyDescriptors
               languageOptions strict completion st = Some (Inr st1)"
      and ends: "graphPackage_ends commonDependencyDescriptors st1 = Inr st2"
      and rest: "awaitGraphPackage completions I readDescriptorFn canonical conditions
                   commonDependencyDescriptors languageOptions strict st2 = Some (Inr st')"
      unfolding awaitGraphPackage_step [OF False pending]
      by (auto split: option.splits sum.splits)
    from Cons.prems(2) pending step
    have inv1: "builderInvariant readDescriptorFn canonical commonDependencyDescriptors entry
                  st1"
      by (rule resumeChild_invariant)
    from Cons.prems(2,3) pending step inj read
    have explored1:
      "dependenciesExplored readDescriptorFn canonical commonDependencyDescriptors entry st1"
      by (rule resumeChild_explored)
    note ended = graphPackage_ends_invariant [OF ends inv1]
    from ended
    have "dependenciesExplored readDescriptorFn canonical commonDependencyDescriptors entry
            st2
          = dependenciesExplored readDescriptorFn canonical commonDependencyDescriptors entry
              st1"
      by (intro dependenciesExplored_cong) simp_all
    with explored1
    have explored2:
      "dependenciesExplored readDescriptorFn canonical commonDependencyDescriptors entry st2"
      by simp
    from ended
    have inv2: "builderInvariant readDescriptorFn canonical commonDependencyDescriptors entry
                  st2"
      by simp
    from rest inv2 explored2 show ?thesis by (rule Cons.IH)
  qed
qed

lemma awaitGraphPackage_returns:
  assumes finite: "finite (installedPackages readDescriptorFn canonical)"
    and "builderInvariant readDescriptorFn canonical commonDependencyDescriptors entry st"
    and "noneCanReturn st"
    and "searchesAhead readDescriptorFn canonical commonDependencyDescriptors st
         \<le> length completions"
  shows "awaitGraphPackage completions I readDescriptorFn canonical conditions
           commonDependencyDescriptors languageOptions strict st \<noteq> None"
  using assms(2-4)
proof (induction completions arbitrary: st)
  case Nil
  then have "bs_children st = []" by (simp add: searchesAhead_def)
  with search_pending [OF Nil.prems(1,2)] have "bs_awaited st = []" by blast
  then show ?case by simp
next
  case (Cons completion completions)
  show ?case
  proof (cases "bs_awaited st = []")
    case True
    then show ?thesis by simp
  next
    case False
    with Cons.prems(1,2) have pending: "bs_children st \<noteq> []"
      by (intro search_pending)
    let ?step = "resumeChild I readDescriptorFn canonical conditions
                   commonDependencyDescriptors languageOptions strict completion st"
    from resumeChild_returns obtain result where result: "?step = Some result"
      by blast
    show ?thesis
    proof (cases result)
      case (Inl e)
      with result show ?thesis
        unfolding awaitGraphPackage_step [OF False pending] by simp
    next
      case (Inr st1)
      with result have step: "?step = Some (Inr st1)" by simp
      from Cons.prems(1) pending step
      have inv1: "builderInvariant readDescriptorFn canonical commonDependencyDescriptors
                    entry st1"
        by (rule resumeChild_invariant)
      from finite pending step
      have less: "searchesAhead readDescriptorFn canonical commonDependencyDescriptors st1
                  < searchesAhead readDescriptorFn canonical commonDependencyDescriptors st"
        by (rule resumeChild_searchesAhead)
      show ?thesis
      proof (cases "graphPackage_ends commonDependencyDescriptors st1")
        case (Inl e)
        with step show ?thesis
          unfolding awaitGraphPackage_step [OF False pending] by simp
      next
        case (Inr st2)
        note ended = graphPackage_ends_invariant [OF Inr inv1]
        from ended
        have "searchesAhead readDescriptorFn canonical commonDependencyDescriptors st2
              = searchesAhead readDescriptorFn canonical commonDependencyDescriptors st1"
          by (intro searchesAhead_cong) simp_all
        with less Cons.prems(3)
        have "searchesAhead readDescriptorFn canonical commonDependencyDescriptors st2
              \<le> length completions"
          by simp
        with ended
        have "awaitGraphPackage completions I readDescriptorFn canonical conditions
                commonDependencyDescriptors languageOptions strict st2 \<noteq> None"
          by (intro Cons.IH) simp_all
        with step Inr show ?thesis
          unfolding awaitGraphPackage_step [OF False pending] by simp
      qed
    qed
  qed
qed

text \<open>The first call of \<open>graphPackage_begin\<close>, on a graph without nodes.\<close>

lemma object_keys_assign:
  "set (object_keys (assign target source))
   = set (object_keys target) \<union> set (object_keys source)"
proof -
  have "fst ` set (fold (\<lambda>(k, v). AList.update k v) source target)
        = fst ` set target \<union> fst ` set source"
    by (induction source arbitrary: target) (simp_all add: dom_update split_beta)
  then show ?thesis by (simp add: object_keys_def assign_def)
qed

lemma allDependenciesOf_dev:
  "set (object_keys (allDependenciesOf commonDependencyDescriptors packageDescriptor False))
   \<subseteq> set (object_keys (allDependenciesOf commonDependencyDescriptors packageDescriptor dev))"
  by (cases dev) (auto simp: allDependenciesOf_def Let_def object_keys_assign)

lemma graphPackage_begin_first:
  assumes call:
    "graphPackage_begin None I name readDescriptorFn canonical
       (packageLocation, packageDescriptor) conditions dev commonDependencyDescriptors
       languageOptions strict logicalPath st = Some (Inr st1)"
    and empty: "bs_graph st = []" "bs_children st = []" "bs_awaited st = []"
  shows "builderInvariant readDescriptorFn canonical commonDependencyDescriptors
           (packageLocation, packageDescriptor, dev) st1"
    and "inj_on href (insert packageLocation (installedPackages readDescriptorFn canonical))
         \<Longrightarrow> readDescriptorFn packageLocation = Inr (Some packageDescriptor)
         \<Longrightarrow> dependenciesExplored readDescriptorFn canonical commonDependencyDescriptors
               (packageLocation, packageDescriptor, dev) st1"
proof -
  let ?entry = "(packageLocation, packageDescriptor, dev)"
  let ?names = "object_keys
                  (allDependenciesOf commonDependencyDescriptors packageDescriptor dev)"
  from empty have "map_of (bs_graph st) (href packageLocation) = None" by simp
  with call obtain result where
    path: "node_path result = logicalPath"
    and graph: "bs_graph st1 = [(href packageLocation, result)]"
    and children:
      "bs_children st1
       = map (\<lambda>name.
                \<lparr>child_packageLocation = packageLocation, child_name = name,
                 child_logicalPath = logicalPath @ [name],
                 child_optional = (name \<in> set (optionalsOf packageDescriptor))\<rparr>)
           (sort ?names)"
    and awaited: "bs_awaited st1 = [(packageLocation, None)]"
    by (rule graphPackage_begin_registers) (simp_all add: empty)
  have keys: "graphKeys (bs_graph st1) = {href packageLocation}"
    by (simp add: graph graphKeys_def)
  have entry: "?entry \<in> reachablePackages readDescriptorFn canonical
                           commonDependencyDescriptors ?entry"
    by (rule reachablePackages.entry)
  show "builderInvariant readDescriptorFn canonical commonDependencyDescriptors ?entry st1"
  proof (rule builderInvariantI)
    show "distinct (map fst (bs_graph st1))" by (simp add: graph)
    show "href (fst ?entry) \<in> graphKeys (bs_graph st1)" by (simp add: keys)
    show "graphKeys (bs_graph st1)
          \<subseteq> href ` fst ` reachablePackages readDescriptorFn canonical
                            commonDependencyDescriptors ?entry"
      using entry by (force simp: keys)
  next
    fix child assume "child \<in> set (bs_children st1)"
    then obtain name' where child: "name' \<in> set ?names"
      "child_packageLocation child = packageLocation" "child_name child = name'"
      "child_logicalPath child = logicalPath @ [name']"
      by (auto simp: children)
    with entry
    show "\<exists>packageDescriptor' dev'.
            (child_packageLocation child, packageDescriptor', dev')
              \<in> reachablePackages readDescriptorFn canonical commonDependencyDescriptors
                  ?entry
            \<and> child_name child
                \<in> set (object_keys
                         (allDependenciesOf commonDependencyDescriptors packageDescriptor'
                            dev'))"
      by auto
    from child show "href (child_packageLocation child) \<in> href ` fst ` set (bs_awaited st1)"
      by (simp add: awaited)
    from child path
    show "nodeRank (bs_graph st1) (href (child_packageLocation child))
          < length (child_logicalPath child)"
      by (simp add: graph nodeRank_def)
  next
    fix location awaiter assume "(location, awaiter) \<in> set (bs_awaited st1)"
    then show "href location \<in> graphKeys (bs_graph st1)"
      by (simp add: awaited keys)
  next
    fix location parent assume "(location, Some parent) \<in> set (bs_awaited st1)"
    then show "parent \<in> graphKeys (bs_graph st1)
               \<and> nodeRank (bs_graph st1) parent < nodeRank (bs_graph st1) (href location)"
      by (simp add: awaited)
  qed
  assume inj: "inj_on href (insert packageLocation
                              (installedPackages readDescriptorFn canonical))"
    and read: "readDescriptorFn packageLocation = Inr (Some packageDescriptor)"
  show "dependenciesExplored readDescriptorFn canonical commonDependencyDescriptors ?entry
          st1"
  proof (rule dependenciesExploredI)
    fix location descriptor dev' name'
    assume reachable:
      "(location, descriptor, dev')
         \<in> reachablePackages readDescriptorFn canonical commonDependencyDescriptors ?entry"
      and key: "href location \<in> graphKeys (bs_graph st1)"
      and name': "name' \<in> set (object_keys
                                (allDependenciesOf commonDependencyDescriptors descriptor
                                   dev'))"
    from reachablePackages_installed [OF reachable] read
    have installed:
      "location \<in> insert packageLocation (installedPackages readDescriptorFn canonical)"
      "readDescriptorFn location = Inr (Some descriptor)"
      "dev' = False \<or> dev' = dev"
      by auto
    from key have same: "href location = href packageLocation" by (simp add: keys)
    have location: "location = packageLocation"
    proof (rule inj_onD [OF inj same])
      show "location \<in> insert packageLocation
                           (installedPackages readDescriptorFn canonical)"
        using installed(1) by simp
      show "packageLocation \<in> insert packageLocation
                                  (installedPackages readDescriptorFn canonical)"
        by simp
    qed
    with installed(2) read have descriptor: "descriptor = packageDescriptor" by simp
    from installed(3) have "name' \<in> set ?names"
    proof
      assume "dev' = False"
      with name' descriptor
        allDependenciesOf_dev [of commonDependencyDescriptors packageDescriptor dev]
      show ?thesis by blast
    next
      assume "dev' = dev"
      with name' descriptor show ?thesis by simp
    qed
    then have "\<lparr>child_packageLocation = packageLocation, child_name = name',
                child_logicalPath = logicalPath @ [name'],
                child_optional = (name' \<in> set (optionalsOf packageDescriptor))\<rparr>
               \<in> set (bs_children st1)"
      by (simp add: children)
    with location
    show "(\<exists>child \<in> set (bs_children st1).
             child_packageLocation child = location \<and> child_name child = name')
          \<or> (\<forall>dependencyLocation dependencyDescriptor.
                findPackage readDescriptorFn canonical location name'
                = Inr (Some (dependencyLocation, dependencyDescriptor)) \<longrightarrow>
                href dependencyLocation \<in> graphKeys (bs_graph st1))"
      by (intro disjI1 bexI) simp_all
  qed
qed

text \<open>
  When no search is pending and every dependency is explored, every package that
  can be reached is in the graph.
\<close>

lemma explored_closed:
  assumes inv: "builderInvariant readDescriptorFn canonical commonDependencyDescriptors entry st"
    and explored:
      "dependenciesExplored readDescriptorFn canonical commonDependencyDescriptors entry st"
    and none: "bs_children st = []"
    and reachable:
      "package \<in> reachablePackages readDescriptorFn canonical commonDependencyDescriptors
                   entry"
  shows "href (fst package) \<in> graphKeys (bs_graph st)"
  using reachable
proof (induction rule: reachablePackages.induct)
  case entry
  from builderInvariantD(2) [OF inv] show ?case .
next
  case (dependency packageLocation packageDescriptor dev name dependencyLocation
      dependencyDescriptor)
  from dependency(4) have "href packageLocation \<in> graphKeys (bs_graph st)" by simp
  from dependenciesExploredD [OF explored dependency(1) this dependency(2)] none
    dependency(3)
  show ?case by simp
qed

text \<open>The whole call: what it keeps, that it ends, and the graph it leaves.\<close>

lemma graphPackage_stages:
  assumes "graphPackage completions I name readDescriptorFn canonical dependency conditions
             dev commonDependencyDescriptors languageOptions strict logicalPath st
           = Some (Inr st')"
  obtains st1 st2 where
    "graphPackage_begin None I name readDescriptorFn canonical dependency conditions dev
       commonDependencyDescriptors languageOptions strict logicalPath st = Some (Inr st1)"
    "graphPackage_ends commonDependencyDescriptors st1 = Inr st2"
    "awaitGraphPackage completions I readDescriptorFn canonical conditions
       commonDependencyDescriptors languageOptions strict st2 = Some (Inr st')"
  using assms unfolding graphPackage_def
  by (auto split: option.splits sum.splits)

lemma graphPackage_invariant:
  assumes call:
    "graphPackage completions I name readDescriptorFn canonical
       (packageLocation, packageDescriptor) conditions dev commonDependencyDescriptors
       languageOptions strict logicalPath st = Some (Inr st')"
    and empty: "bs_graph st = []" "bs_children st = []" "bs_awaited st = []"
  shows "builderInvariant readDescriptorFn canonical commonDependencyDescriptors
           (packageLocation, packageDescriptor, dev) st'"
    and "bs_awaited st' = []" and "bs_children st' = []"
    and "inj_on href (insert packageLocation (installedPackages readDescriptorFn canonical))
         \<Longrightarrow> readDescriptorFn packageLocation = Inr (Some packageDescriptor)
         \<Longrightarrow> dependenciesExplored readDescriptorFn canonical commonDependencyDescriptors
               (packageLocation, packageDescriptor, dev) st'"
proof -
  let ?entry = "(packageLocation, packageDescriptor, dev)"
  from call obtain st1 st2 where
    start: "graphPackage_begin None I name readDescriptorFn canonical
              (packageLocation, packageDescriptor) conditions dev
              commonDependencyDescriptors languageOptions strict logicalPath st
            = Some (Inr st1)"
    and ends: "graphPackage_ends commonDependencyDescriptors st1 = Inr st2"
    and wait: "awaitGraphPackage completions I readDescriptorFn canonical conditions
                 commonDependencyDescriptors languageOptions strict st2 = Some (Inr st')"
    by (rule graphPackage_stages)
  note first = graphPackage_begin_first [OF start empty]
  note ended = graphPackage_ends_invariant [OF ends first(1)]
  from ended
  have inv2: "builderInvariant readDescriptorFn canonical commonDependencyDescriptors ?entry
                st2"
    by simp
  note last = awaitGraphPackage_invariant [OF wait inv2]
  from last
  show inv': "builderInvariant readDescriptorFn canonical commonDependencyDescriptors ?entry
                st'"
    and awaited: "bs_awaited st' = []"
    by simp_all
  from builderInvariantD(5) [OF inv'] awaited show "bs_children st' = []"
    by (cases "bs_children st'") auto
  assume inj: "inj_on href (insert packageLocation
                              (installedPackages readDescriptorFn canonical))"
    and read: "readDescriptorFn packageLocation = Inr (Some packageDescriptor)"
  from ended
  have "dependenciesExplored readDescriptorFn canonical commonDependencyDescriptors ?entry
          st2
        = dependenciesExplored readDescriptorFn canonical commonDependencyDescriptors ?entry
            st1"
    by (intro dependenciesExplored_cong) simp_all
  with first(2) [OF inj read]
  have "dependenciesExplored readDescriptorFn canonical commonDependencyDescriptors ?entry
          st2"
    by simp
  moreover from inj
  have "inj_on href (insert (fst ?entry) (installedPackages readDescriptorFn canonical))"
    by simp
  moreover from read
  have "readDescriptorFn (fst ?entry) = Inr (Some (fst (snd ?entry)))"
    by simp
  ultimately
  show "dependenciesExplored readDescriptorFn canonical commonDependencyDescriptors ?entry
          st'"
    by (rule awaitGraphPackage_explored [OF wait inv2])
qed

lemma graphPackage_returns:
  assumes finite: "finite (installedPackages readDescriptorFn canonical)"
    and empty: "bs_graph st = []" "bs_children st = []" "bs_awaited st = []"
  shows "\<exists>n. \<forall>completions. n \<le> length completions \<longrightarrow>
           graphPackage completions I name readDescriptorFn canonical
             (packageLocation, packageDescriptor) conditions dev commonDependencyDescriptors
             languageOptions strict logicalPath st \<noteq> None"
proof -
  let ?call = "graphPackage_begin None I name readDescriptorFn canonical
                  (packageLocation, packageDescriptor) conditions dev
                  commonDependencyDescriptors languageOptions strict logicalPath st"
  from graphPackage_begin_returns obtain begun where begun: "?call = Some begun"
    by blast
  show ?thesis
  proof (cases begun)
    case (Inl e)
    with begun show ?thesis by (simp add: graphPackage_def)
  next
    case (Inr st1)
    with begun have start: "?call = Some (Inr st1)" by simp
    note first = graphPackage_begin_first(1) [OF start empty]
    show ?thesis
    proof (cases "graphPackage_ends commonDependencyDescriptors st1")
      case (Inl e)
      with start show ?thesis by (simp add: graphPackage_def)
    next
      case (Inr st2)
      note ended = graphPackage_ends_invariant [OF Inr first]
      let ?n = "searchesAhead readDescriptorFn canonical commonDependencyDescriptors st2"
      have "graphPackage completions I name readDescriptorFn canonical
              (packageLocation, packageDescriptor) conditions dev
              commonDependencyDescriptors languageOptions strict logicalPath st \<noteq> None"
        if "?n \<le> length completions" for completions
      proof -
        from ended
        have "builderInvariant readDescriptorFn canonical commonDependencyDescriptors
                (packageLocation, packageDescriptor, dev) st2"
          and "noneCanReturn st2"
          by simp_all
        with finite
        have "awaitGraphPackage completions I readDescriptorFn canonical conditions
                commonDependencyDescriptors languageOptions strict st2 \<noteq> None"
          using that by (rule awaitGraphPackage_returns)
        with start Inr show ?thesis by (simp add: graphPackage_def)
      qed
      then show ?thesis by blast
    qed
  qed
qed

lemma graphPackage_more:
  assumes "graphPackage completions I name readDescriptorFn canonical dependency conditions
             dev commonDependencyDescriptors languageOptions strict logicalPath st
           = Some result"
  shows "graphPackage (completions @ further) I name readDescriptorFn canonical dependency
           conditions dev commonDependencyDescriptors languageOptions strict logicalPath st
         = Some result"
  using assms unfolding graphPackage_def
  by (auto split: option.splits sum.splits intro: awaitGraphPackage_more)

text \<open>
  Claim C2.  Take a layout with finitely many installed packages, whose locations
  are told apart by their URLs, cyclic or not, and an entry package whose descriptor
  is the one at its location.  Whatever the order in which the host completes the
  searches, the awaited call of \<^verbatim>\<open>graphPackage\<close> terminates: there is a number of
  completions after which it has returned or thrown, and completions beyond those it
  needs do not change its result.  When it returns, no promise is left unsettled,
  and the graph has exactly one node for each package that can be reached from the
  entry package, and no other node.  A call for a location that is in the graph
  returns at once and leaves the state as it is; a call for a location that is not
  registers the node before any of its dependencies is looked at: when the call
  reaches its await the node is in the graph, the other nodes are as they were, and
  the searches for its dependencies have only been started.
\<close>

theorem graphPackage_terminates_and_registers_once:
  fixes I :: "('pol, 'pp) imported" and name :: string and conditions :: "string list"
    and dev :: bool and commonDependencyDescriptors :: "(string \<times> string) object"
    and languageOptions :: languageOptions and strict :: bool
    and logicalPath :: "string list"
  assumes finite: "finite (installedPackages readDescriptorFn canonical)"
    and inj: "inj_on href (insert packageLocation
                             (installedPackages readDescriptorFn canonical))"
    and read: "readDescriptorFn packageLocation = Inr (Some packageDescriptor)"
  defines "run \<equiv> \<lambda>completions.
             graphPackage completions I name readDescriptorFn canonical
               (packageLocation, packageDescriptor) conditions dev
               commonDependencyDescriptors languageOptions strict logicalPath
               \<lparr>bs_graph = [], bs_preferredPackageLogicalPathMap = [], bs_console = [],
                bs_children = [], bs_awaited = []\<rparr>"
  shows
    "(\<exists>n. \<forall>completions. n \<le> length completions \<longrightarrow> run completions \<noteq> None)
     \<and> (\<forall>completions further result.
          run completions = Some result \<longrightarrow> run (completions @ further) = Some result)
     \<and> (\<forall>completions st'.
          run completions = Some (Inr st') \<longrightarrow>
          graphKeys (bs_graph st')
          = href ` fst ` reachablePackages readDescriptorFn canonical
                           commonDependencyDescriptors
                           (packageLocation, packageDescriptor, dev)
          \<and> distinct (map fst (bs_graph st'))
          \<and> bs_children st' = [] \<and> bs_awaited st' = [])
     \<and> (\<forall>awaiter name' location descriptor dev' logicalPath' st.
          map_of (bs_graph st) (href location) \<noteq> None \<longrightarrow>
          graphPackage_begin awaiter I name' readDescriptorFn canonical
            (location, descriptor) conditions dev' commonDependencyDescriptors
            languageOptions strict logicalPath' st = Some (Inr st))
     \<and> (\<forall>awaiter name' location descriptor dev' logicalPath' st st'.
          map_of (bs_graph st) (href location) = None
          \<and> graphPackage_begin awaiter I name' readDescriptorFn canonical
              (location, descriptor) conditions dev' commonDependencyDescriptors
              languageOptions strict logicalPath' st = Some (Inr st') \<longrightarrow>
          map_of (bs_graph st') (href location) \<noteq> None
          \<and> (\<forall>k. k \<noteq> href location \<longrightarrow> map_of (bs_graph st') k = map_of (bs_graph st) k)
          \<and> bs_children st'
              = bs_children st
                @ map (\<lambda>name.
                         \<lparr>child_packageLocation = location, child_name = name,
                          child_logicalPath = logicalPath' @ [name],
                          child_optional = (name \<in> set (optionalsOf descriptor))\<rparr>)
                    (sort (object_keys
                             (allDependenciesOf commonDependencyDescriptors descriptor
                                dev')))
          \<and> bs_awaited st' = bs_awaited st @ [(location, awaiter)])"
proof (intro conjI allI impI)
  show "\<exists>n. \<forall>completions. n \<le> length completions \<longrightarrow> run completions \<noteq> None"
    unfolding run_def by (rule graphPackage_returns [OF finite]) simp_all
next
  fix completions further result
  assume "run completions = Some result"
  then show "run (completions @ further) = Some result"
    unfolding run_def by (rule graphPackage_more)
next
  fix completions st'
  assume "run completions = Some (Inr st')"
  then have call:
    "graphPackage completions I name readDescriptorFn canonical
       (packageLocation, packageDescriptor) conditions dev commonDependencyDescriptors
       languageOptions strict logicalPath
       \<lparr>bs_graph = [], bs_preferredPackageLogicalPathMap = [], bs_console = [],
        bs_children = [], bs_awaited = []\<rparr> = Some (Inr st')"
    by (simp add: run_def)
  have inv: "builderInvariant readDescriptorFn canonical commonDependencyDescriptors
               (packageLocation, packageDescriptor, dev) st'"
    and "bs_awaited st' = []" and none: "bs_children st' = []"
    by (rule graphPackage_invariant [OF call]; simp)+
  then show "bs_children st' = []" and "bs_awaited st' = []" by simp_all
  from builderInvariantD(1) [OF inv] show "distinct (map fst (bs_graph st'))" .
  have explored:
    "dependenciesExplored readDescriptorFn canonical commonDependencyDescriptors
       (packageLocation, packageDescriptor, dev) st'"
    by (rule graphPackage_invariant(4) [OF call _ _ _ inj read]) simp_all
  show "graphKeys (bs_graph st')
        = href ` fst ` reachablePackages readDescriptorFn canonical
                         commonDependencyDescriptors
                         (packageLocation, packageDescriptor, dev)"
  proof
    from builderInvariantD(3) [OF inv]
    show "graphKeys (bs_graph st')
          \<subseteq> href ` fst ` reachablePackages readDescriptorFn canonical
                            commonDependencyDescriptors
                            (packageLocation, packageDescriptor, dev)" .
    show "href ` fst ` reachablePackages readDescriptorFn canonical
                         commonDependencyDescriptors
                         (packageLocation, packageDescriptor, dev)
          \<subseteq> graphKeys (bs_graph st')"
      using explored_closed [OF inv explored none] by auto
  qed
next
  fix awaiter name' location descriptor dev' logicalPath' and st :: build_state
  assume "map_of (bs_graph st) (href location) \<noteq> None"
  then show "graphPackage_begin awaiter I name' readDescriptorFn canonical
            (location, descriptor) conditions dev' commonDependencyDescriptors
            languageOptions strict logicalPath' st = Some (Inr st)"
    by (intro graphPackage_begin_registered) simp
next
  fix awaiter name' location descriptor dev' logicalPath' and st st' :: build_state
  assume "map_of (bs_graph st) (href location) = None
          \<and> graphPackage_begin awaiter I name' readDescriptorFn canonical
              (location, descriptor) conditions dev' commonDependencyDescriptors
              languageOptions strict logicalPath' st = Some (Inr st')"
  then have fresh: "map_of (bs_graph st) (href location) = None"
    and call: "graphPackage_begin awaiter I name' readDescriptorFn canonical
              (location, descriptor) conditions dev' commonDependencyDescriptors
              languageOptions strict logicalPath' st = Some (Inr st')"
    by simp_all
  from call fresh obtain result where
    graph: "bs_graph st' = AList.update (href location) result (bs_graph st)"
    and children:
      "bs_children st'
       = bs_children st
         @ map (\<lambda>name.
                  \<lparr>child_packageLocation = location, child_name = name,
                   child_logicalPath = logicalPath' @ [name],
                   child_optional = (name \<in> set (optionalsOf descriptor))\<rparr>)
             (sort (object_keys
                      (allDependenciesOf commonDependencyDescriptors descriptor dev')))"
    and awaited: "bs_awaited st' = bs_awaited st @ [(location, awaiter)]"
    by (rule graphPackage_begin_registers)
  from graph show "map_of (bs_graph st') (href location) \<noteq> None"
    by (simp add: update_conv')
  from children show
    "bs_children st'
     = bs_children st
       @ map (\<lambda>name.
                \<lparr>child_packageLocation = location, child_name = name,
                 child_logicalPath = logicalPath' @ [name],
                 child_optional = (name \<in> set (optionalsOf descriptor))\<rparr>)
           (sort (object_keys
                    (allDependenciesOf commonDependencyDescriptors descriptor dev')))" .
  from awaited show "bs_awaited st' = bs_awaited st @ [(location, awaiter)]" .
  fix k assume "k \<noteq> href location"
  with graph show "map_of (bs_graph st') k = map_of (bs_graph st) k"
    by (simp add: update_conv')
qed

text \<open>The example layout, in which \<^verbatim>\<open>a\<close> and \<^verbatim>\<open>b\<close> depend on each other.\<close>

lemma split_slash_nonempty: "split_slash s \<noteq> []"
  by (cases s) (auto split: list.splits)

lemma split_slash_directory: "split_slash (s @ ''/'') = split_slash s @ [[]]"
  by (induction s) (auto split: list.splits simp: split_slash_nonempty)

lemma url_path_state_directory: "\<exists>q. url_path_state p (xs @ [[]]) = q @ [[]]"
proof (induction xs arbitrary: p)
  case Nil
  show ?case by simp
next
  case (Cons x xs)
  obtain y ys where rest: "xs @ [[]] = y # ys" by (cases xs) auto
  let ?p = "if x = ''..'' then url_shorten p else if x = ''.'' then p else p @ [x]"
  have "url_path_state p ((x # xs) @ [[]]) = url_path_state ?p (xs @ [[]])"
    by (simp add: rest)
  with Cons.IH [of ?p] show ?case by simp
qed

lemma resolveLocation_directory: "\<exists>q. resolveLocation (rel @ ''/'') base = q @ ['''']"
  unfolding resolveLocation_def split_slash_directory by (rule url_path_state_directory)

lemma example_installed:
  "installedPackages (readDescriptor example_imported example_disk) (\<lambda>location. location)
   \<subseteq> {[''app'', ''''], [''app'', ''node_modules'', ''a'', ''''],
       [''app'', ''node_modules'', ''b'', '''']}"
proof
  fix x
  assume "x \<in> installedPackages (readDescriptor example_imported example_disk)
                (\<lambda>location. location)"
  then obtain directory name descriptor where
    x: "x = resolveLocation (''node_modules/'' @ name @ ''/'') directory"
    and read: "readDescriptor example_imported example_disk x = Inr (Some descriptor)"
    unfolding installedPackages_def by blast
  from resolveLocation_directory [of "''node_modules/'' @ name" directory] x
  obtain q where q: "x = q @ ['''']" by auto
  from read have "example_disk (resolveLocation ''package.json'' x) \<noteq> None"
    by (auto simp: readDescriptor_def Let_def split: option.splits)
  then have "example_disk (q @ [''package.json'']) \<noteq> None"
    by (simp add: q resolveLocation_def url_shorten_def)
  then have "q @ [''package.json'']
             \<in> {[''app'', ''package.json''],
                 [''app'', ''node_modules'', ''a'', ''package.json''],
                 [''app'', ''node_modules'', ''b'', ''package.json'']}"
    by (auto simp: example_disk_def split: if_splits)
  then have "q \<in> {[''app''], [''app'', ''node_modules'', ''a''],
                   [''app'', ''node_modules'', ''b'']}"
    by (auto simp: append_eq_Cons_conv)
  with q show "x \<in> {[''app'', ''''], [''app'', ''node_modules'', ''a'', ''''],
       [''app'', ''node_modules'', ''b'', '''']}"
    by auto
qed

theorem graphPackage_terminates_and_registers_once_witness:
  "finite (installedPackages (readDescriptor example_imported example_disk)
             (\<lambda>location. location))
   \<and> inj_on href
       (insert [''app'', '''']
          (installedPackages (readDescriptor example_imported example_disk)
             (\<lambda>location. location)))
   \<and> readDescriptor example_imported example_disk [''app'', '''']
     = Inr (Some (manifest ''app'' [(''a'', ''^1.0.0''), (''b'', ''^1.0.0'')]))
   \<and> (\<exists>n. \<forall>order.
         graphPackage (map order [0..<n]) example_imported ''app''
           (readDescriptor example_imported example_disk) (\<lambda>location. location)
           ([''app'', ''''], manifest ''app'' [(''a'', ''^1.0.0''), (''b'', ''^1.0.0'')])
           [] False [] (makeLanguageOptions example_options) True []
           \<lparr>bs_graph = [], bs_preferredPackageLogicalPathMap = [], bs_console = [],
            bs_children = [], bs_awaited = []\<rparr>
         \<noteq> None)
   \<and> (\<forall>further.
         map_option (map_sum id bs_graph)
           (graphPackage (example_completions @ further) example_imported ''app''
              (readDescriptor example_imported example_disk) (\<lambda>location. location)
              ([''app'', ''''], manifest ''app'' [(''a'', ''^1.0.0''), (''b'', ''^1.0.0'')])
              [] False [] (makeLanguageOptions example_options) True []
              \<lparr>bs_graph = [], bs_preferredPackageLogicalPathMap = [], bs_console = [],
               bs_children = [], bs_awaited = []\<rparr>)
         = Some (Inr example_graph))
   \<and> graphKeys example_graph
     = href ` fst ` reachablePackages (readDescriptor example_imported example_disk)
                      (\<lambda>location. location) []
                      ([''app'', ''''],
                       manifest ''app'' [(''a'', ''^1.0.0''), (''b'', ''^1.0.0'')], False)
   \<and> distinct (map fst example_graph)"
proof -
  let ?rd = "readDescriptor example_imported example_disk"
  let ?st = "\<lparr>bs_graph = [], bs_preferredPackageLogicalPathMap = [], bs_console = [],
             bs_children = [], bs_awaited = []\<rparr>"
  let ?app = "manifest ''app'' [(''a'', ''^1.0.0''), (''b'', ''^1.0.0'')]"
  let ?run = "\<lambda>completions. graphPackage completions example_imported ''app'' ?rd
          (\<lambda>location. location) ([''app'', ''''], ?app)
          [] False [] (makeLanguageOptions example_options) True [] ?st"
  let ?locations = "{[''app'', ''''], [''app'', ''node_modules'', ''a'', ''''],
       [''app'', ''node_modules'', ''b'', '''']}"
  have fin: "finite (installedPackages ?rd (\<lambda>location. location))"
    by (rule finite_subset [OF example_installed]) simp
  have "inj_on href ?locations"
    by (simp add: href_def pathname_def)
  moreover have "insert [''app'', ''''] (installedPackages ?rd (\<lambda>location. location))
                 \<subseteq> ?locations"
    using example_installed by auto
  ultimately have inj:
    "inj_on href (insert [''app'', ''''] (installedPackages ?rd (\<lambda>location. location)))"
    by (rule inj_on_subset)
  have read: "?rd [''app'', ''''] = Inr (Some ?app)"
    by (simp add: readDescriptor_def example_disk_def resolveLocation_def url_shorten_def
          example_imported_def example_parse_def example_manifests_def)
  note claim =
    graphPackage_terminates_and_registers_once
      [OF fin inj read, where I = example_imported and name = "''app''"
         and conditions = "[]" and dev = False and commonDependencyDescriptors = "[]"
         and languageOptions = "makeLanguageOptions example_options" and strict = True
         and logicalPath = "[]"]
  note terminates = claim [THEN conjunct1]
    and stable = claim [THEN conjunct2, THEN conjunct1, rule_format]
    and registers = claim [THEN conjunct2, THEN conjunct2, THEN conjunct1, rule_format]
  from terminates obtain n where
    n: "\<forall>completions. n \<le> length completions \<longrightarrow> ?run completions \<noteq> None" ..
  have "?run (map order [0..<n]) \<noteq> None" for order
    by (rule n [rule_format]) simp
  then have "\<forall>order. ?run (map order [0..<n]) \<noteq> None" ..
  then have returns: "\<exists>n. \<forall>order. ?run (map order [0..<n]) \<noteq> None"
    by (rule exI [where x = n])
  have "map_option (map_sum id bs_graph) (?run example_completions)
        = Some (Inr example_graph)"
    by code_simp
  then obtain st' where st': "?run example_completions = Some (Inr st')"
    and graph: "bs_graph st' = example_graph"
    by (cases "?run example_completions") (auto simp: map_sum_def split: sum.splits)
  have "map_option (map_sum id bs_graph) (?run (example_completions @ further))
        = Some (Inr example_graph)" for further
    by (simp only: stable [OF st'] graph option.map map_sum.simps)
  then have further:
    "\<forall>further. map_option (map_sum id bs_graph) (?run (example_completions @ further))
       = Some (Inr example_graph)" ..
  from registers [OF st'] graph
  have keys: "graphKeys example_graph
        = href ` fst ` reachablePackages ?rd (\<lambda>location. location) []
                         ([''app'', ''''], ?app, False)"
    and distinct: "distinct (map fst example_graph)"
    by simp_all
  from fin inj read returns further keys distinct show ?thesis by (intro conjI)
qed

section \<open>Properties of the compartment map of a package\<close>

lemma translateGraph_tags:
  assumes "translateGraph I entryPackageLocation entryModuleSpecifier graph conditions policy
           = Inr cm"
  shows "cm_tags cm = conditions"
  using assms by (auto simp: translateGraph_def split: sum.splits)

lemma compartmentMapForNodeModules_graph:
  "compartmentMapForNodeModules completions I readPowers packageLocation conditionsOption
     packageDescriptor moduleSpecifier options =
     (case resolvedGraph completions I readPowers packageLocation conditionsOption packageDescriptor
             options of
        None \<Rightarrow> None
      | Some (Inl e) \<Rightarrow> Some (Inl e)
      | Some (Inr graph) \<Rightarrow>
          (case opt_policy options of
             None \<Rightarrow>
               Some (translateGraph I (href packageLocation) moduleSpecifier graph
                       (new_Set (case conditionsOption of None \<Rightarrow> [] | Some c \<Rightarrow> c))
                       (opt_policy options))
           | Some pol \<Rightarrow>
               (case assertPolicy I pol of
                  Some e \<Rightarrow> Some (Inl e)
                | None \<Rightarrow>
                    if map_of graph (ATTENUATORS_COMPARTMENT I) \<noteq> None then
                      Some (Inl (ReservedCompartmentName (ATTENUATORS_COMPARTMENT I)))
                    else
                      (case map_of graph (href packageLocation) of
                         None \<Rightarrow> Some (Inl (TypeError (ATTENUATORS_COMPARTMENT I)))
                       | Some entryNode \<Rightarrow>
                           Some (translateGraph I (href packageLocation) moduleSpecifier
                                   (AList.update (ATTENUATORS_COMPARTMENT I)
                                      (entryNode\<lparr>node_externalAliases := [],
                                                 node_label := ATTENUATORS_COMPARTMENT I,
                                                 node_name := ATTENUATORS_COMPARTMENT I\<rparr>)
                                      graph)
                                   (new_Set (case conditionsOption of None \<Rightarrow> [] | Some c \<Rightarrow> c))
                                   (opt_policy options))))))"
  unfolding compartmentMapForNodeModules_def resolvedGraph_def Let_def
  by (rule refl)

text \<open>
  Claim C4, as amended.  The \<^verbatim>\<open>tags\<close> of the compartment map are the condition
  set the caller supplied, in its order.  The tags \<^verbatim>\<open>import\<close>, \<^verbatim>\<open>default\<close> and
  \<^verbatim>\<open>endo\<close> go into the copy of the set that \<^verbatim>\<open>graphPackages\<close> makes for the
  construction of the graph, and not into the map.
\<close>

theorem compartmentMap_tags:
  assumes "compartmentMapForNodeModules completions I readPowers packageLocation conditionsOption
             packageDescriptor moduleSpecifier options = Some (Inr cm)"
  shows "cm_tags cm = new_Set (case conditionsOption of None \<Rightarrow> [] | Some c \<Rightarrow> c)"
  using assms unfolding compartmentMapForNodeModules_graph
  by (auto split: option.splits sum.splits if_splits dest: translateGraph_tags)

theorem compartmentMap_tags_witness:
  "map_option (map_sum id cm_tags)
     (compartmentMapForNodeModules example_completions example_imported example_powers [''app'', '''']
        (Some [''browser'']) None ''./index.js'' example_options)
   = Some (Inr [''browser''])"
proof -
  let ?run = "compartmentMapForNodeModules example_completions example_imported example_powers [''app'', '''']
        (Some [''browser'']) None ''./index.js'' example_options"
  have "case ?run of Some (Inr cm) \<Rightarrow> True | _ \<Rightarrow> False"
    by code_simp
  then obtain cm where run: "?run = Some (Inr cm)"
    by (auto split: option.splits sum.splits)
  from compartmentMap_tags [OF run] have "cm_tags cm = [''browser'']"
    by (simp add: new_Set_def set_add_def)
  with run show ?thesis by simp
qed

theorem compartmentMap_tags_counterexample:
  "map_option (map_sum id cm_tags)
     (compartmentMapForNodeModules example_completions example_imported example_powers [''app'', '''']
        (Some []) None ''./index.js'' example_options)
   = Some (Inr [])"
  by code_simp





end
